theory Spec2Isabelle
  imports Main
begin

section \<open>The lead import pipeline of \<^verbatim>\<open>automation/insurance_lead_import.py\<close>\<close>

text \<open>
  The pipeline reads a batch of leads, rejects those without consent, encrypts the five
  HIPAA fields of the others, writes each to PostgreSQL and to S3, and appends one entry
  per outcome to an audit file. Everything outside the Python process is explicit here:
  \<^item> the table, the bucket, the audit file and the logger output are fields of a
    \<open>world\<close> record that every operation takes and returns;
  \<^item> what the outside decides (environment variables, the clock, random bytes, the
    result of the address lookup, whether a database or an S3 call raises) is read
    from an \<open>env\<close> record, indexed by a step counter kept in the world, so that
    any schedule of failures can be expressed;
  \<^item> the Fernet cipher of the \<^verbatim>\<open>cryptography\<close> package is a parameter
    (\<open>fernet_lib\<close>); the laws of Fernet that a claim needs are hypotheses
    (\<open>fernet_laws\<close>).
  A Python \<^verbatim>\<open>str\<close> is the list of its code points and \<^verbatim>\<open>bytes\<close> a list of
  8-bit characters; \<^verbatim>\<open>str.encode\<close> and \<^verbatim>\<open>bytes.decode\<close> are UTF-8 and raise
  where Python's do. Appending to the audit file and writing to the logger are taken to
  succeed.
\<close>

subsection \<open>Strings, bytes and UTF-8\<close>

type_synonym str = "nat list"

type_synonym bytes = "char list"

text \<open>An exception: its class and the text \<^verbatim>\<open>str(e)\<close> gives.\<close>

datatype exn = Raised string str

fun str_exn :: "exn \<Rightarrow> str" where
  "str_exn (Raised cls msg) = msg"

text \<open>A string literal of the source (ASCII) as a \<^verbatim>\<open>str\<close>.\<close>

definition lit :: "string \<Rightarrow> str" where
  "lit s = map of_char s"

text \<open>
  The bytes of one code point. A surrogate (\<^verbatim>\<open>U+D800\<close> to \<^verbatim>\<open>U+DFFF\<close>) has none;
  nor has a number from \<^verbatim>\<open>0x110000\<close> on, which is no code point of a Python string.
\<close>

fun utf8_bytes :: "nat \<Rightarrow> nat list option" where
  "utf8_bytes c =
     (if c < 0x80 then Some [c]
      else if c < 0x800 then Some [0xC0 + c div 0x40, 0x80 + c mod 0x40]
      else if c < 0x10000 then
        (if 0xD800 \<le> c \<and> c < 0xE000 then None
         else Some [0xE0 + c div 0x1000, 0x80 + c div 0x40 mod 0x40, 0x80 + c mod 0x40])
      else if c < 0x110000 then
        Some [0xF0 + c div 0x40000, 0x80 + c div 0x1000 mod 0x40, 0x80 + c div 0x40 mod 0x40,
              0x80 + c mod 0x40]
      else None)"

declare utf8_bytes.simps [simp del]

fun utf8_encode :: "nat list \<Rightarrow> nat list option" where
  "utf8_encode [] = Some []"
| "utf8_encode (c # cs) =
     (case utf8_bytes c of
        None \<Rightarrow> None
      | Some b \<Rightarrow> map_option ((@) b) (utf8_encode cs))"

definition cont :: "nat \<Rightarrow> bool" where
  "cont b \<longleftrightarrow> 0x80 \<le> b \<and> b < 0xC0"

text \<open>
  The strict decoder: a continuation byte out of place, an overlong form, a surrogate
  and a value beyond \<^verbatim>\<open>U+10FFFF\<close> are refused.
\<close>

fun utf8_decode :: "nat list \<Rightarrow> nat list option" where
  "utf8_decode [] = Some []"
| "utf8_decode (b0 # bs) =
     (if b0 < 0x80 then map_option ((#) b0) (utf8_decode bs)
      else if b0 < 0xC0 then None
      else if b0 < 0xE0 then
        (case bs of
           b1 # r \<Rightarrow>
             (let c = (b0 - 0xC0) * 0x40 + (b1 - 0x80)
              in if cont b1 \<and> 0x80 \<le> c then map_option ((#) c) (utf8_decode r) else None)
         | _ \<Rightarrow> None)
      else if b0 < 0xF0 then
        (case bs of
           b1 # b2 # r \<Rightarrow>
             (let c = (b0 - 0xE0) * 0x1000 + (b1 - 0x80) * 0x40 + (b2 - 0x80)
              in if cont b1 \<and> cont b2 \<and> 0x800 \<le> c \<and> \<not> (0xD800 \<le> c \<and> c < 0xE000)
                 then map_option ((#) c) (utf8_decode r) else None)
         | _ \<Rightarrow> None)
      else if b0 < 0xF8 then
        (case bs of
           b1 # b2 # b3 # r \<Rightarrow>
             (let c = (b0 - 0xF0) * 0x40000 + (b1 - 0x80) * 0x1000 + (b2 - 0x80) * 0x40 + (b3 - 0x80)
              in if cont b1 \<and> cont b2 \<and> cont b3 \<and> 0x10000 \<le> c \<and> c < 0x110000
                 then map_option ((#) c) (utf8_decode r) else None)
         | _ \<Rightarrow> None)
      else None)"

text \<open>
  \<^verbatim>\<open>str.encode()\<close> and \<^verbatim>\<open>bytes.decode()\<close>. The text of the two exceptions is
  abridged: Python's also names the character and its position.
\<close>

definition encode :: "str \<Rightarrow> exn + bytes" where
  "encode s =
     (case utf8_encode s of
        None \<Rightarrow> Inl (Raised ''UnicodeEncodeError'' (lit ''surrogates not allowed''))
      | Some b \<Rightarrow> Inr (map char_of b))"

definition decode :: "bytes \<Rightarrow> exn + str" where
  "decode b =
     (case utf8_decode (map of_char b) of
        None \<Rightarrow> Inl (Raised ''UnicodeDecodeError'' (lit ''invalid start byte''))
      | Some s \<Rightarrow> Inr s)"

text \<open>Decimal digits of a number, as an f-string prints it.\<close>

fun str_nat :: "nat \<Rightarrow> str" where
  "str_nat n =
     (if n < 10 then [48 + n]
      else str_nat (n div 10) @ [48 + n mod 10])"

declare str_nat.simps [simp del]

definition str_int :: "int \<Rightarrow> str" where
  "str_int i = (if i < 0 then lit ''-'' @ str_nat (nat (- i)) else str_nat (nat i))"

subsection \<open>Data\<close>

text \<open>
  The dataclass \<^verbatim>\<open>InsuranceLead\<close>, field by field (\<open>lead_notes\<close> is the field
  \<^verbatim>\<open>notes\<close>).
\<close>

record InsuranceLead =
  lead_id :: str
  source :: str
  first_name :: str
  last_name :: str
  email :: str
  phone :: str
  date_of_birth :: "str option"
  zip_code :: "str option"
  state :: "str option"
  coverage_type :: "str option"
  household_income :: "str option"
  health_conditions :: "str option"
  current_coverage :: "bool option"
  preferred_contact_time :: "str option"
  lead_notes :: "str option"
  created_at :: str
  imported_at :: str
  consent_given :: bool
  tcpa_compliant :: bool

text \<open>
  The names returned by \<^verbatim>\<open>get_hipaa_fields\<close>, in the order of the source, with
  \<^verbatim>\<open>getattr\<close> and \<^verbatim>\<open>setattr\<close> on them. \<^verbatim>\<open>phone\<close> and
  \<^verbatim>\<open>email\<close> are plain strings, the other three are optional.
\<close>

datatype hipaa_field = Date_of_birth | Household_income | Health_conditions | Phone | Email

definition get_hipaa_fields :: "hipaa_field list" where
  "get_hipaa_fields = [Date_of_birth, Household_income, Health_conditions, Phone, Email]"

fun getattr :: "InsuranceLead \<Rightarrow> hipaa_field \<Rightarrow> str option" where
  "getattr l Date_of_birth = date_of_birth l"
| "getattr l Household_income = household_income l"
| "getattr l Health_conditions = health_conditions l"
| "getattr l Phone = Some (phone l)"
| "getattr l Email = Some (email l)"

fun setattr :: "InsuranceLead \<Rightarrow> hipaa_field \<Rightarrow> str \<Rightarrow> InsuranceLead" where
  "setattr l Date_of_birth v = l\<lparr>date_of_birth := Some v\<rparr>"
| "setattr l Household_income v = l\<lparr>household_income := Some v\<rparr>"
| "setattr l Health_conditions v = l\<lparr>health_conditions := Some v\<rparr>"
| "setattr l Phone v = l\<lparr>phone := v\<rparr>"
| "setattr l Email v = l\<lparr>email := v\<rparr>"

text \<open>
  JSON values of the \<^verbatim>\<open>details\<close> dictionaries, and one audit line
  (\<open>subject\<close> is its key \<^verbatim>\<open>lead_id\<close>).
\<close>

datatype jval = JStr str | JBool bool | JNull

fun jopt :: "str option \<Rightarrow> jval" where
  "jopt None = JNull"
| "jopt (Some s) = JStr s"

record audit_event =
  timestamp :: str
  event_type :: str
  subject :: str
  details :: "(string \<times> jval) list"
  user :: str
  ip_address :: str

datatype level = DEBUG | INFO | WARNING | ERROR

text \<open>
  A record of the calls of the three internal operations: the argument each received and
  the exception the call ended with, if any (for \<^verbatim>\<open>_archive_to_s3\<close> the one it
  caught itself).
\<close>

datatype call =
    Encrypt_call InsuranceLead "exn option"
  | Store_call InsuranceLead "exn option"
  | Archive_call InsuranceLead "exn option"

record world =
  db :: "InsuranceLead list"
  s3 :: "str \<rightharpoonup> InsuranceLead"
  audit :: "audit_event list"
  log_lines :: "(level \<times> str) list"
  calls :: "call list"
  tick :: nat

text \<open>
  \<open>db\<close> is the table \<^verbatim>\<open>insurance_leads\<close>, one row per element, the columns being
  the fields of the lead in the order of the \<^verbatim>\<open>INSERT\<close>; \<open>s3\<close> maps an object
  key to the lead whose JSON form is the object's body.
\<close>

record env =
  getenv :: "string \<Rightarrow> str option"
  now :: "nat \<Rightarrow> str"
  time_time :: "nat \<Rightarrow> bytes"
  urandom :: "nat \<Rightarrow> bytes"
  ip_lookup :: "nat \<Rightarrow> str option"
  db_fault :: "nat \<Rightarrow> InsuranceLead \<Rightarrow> exn option"
  s3_fault :: "nat \<Rightarrow> InsuranceLead \<Rightarrow> exn option"

text \<open>
  \<open>now env t\<close> is \<^verbatim>\<open>datetime.now(timezone.utc).isoformat()\<close> at step \<open>t\<close>;
  \<open>time_time env t\<close> are the eight bytes Fernet packs from \<^verbatim>\<open>time.time()\<close> and
  \<open>urandom env t\<close> the random bytes read at that step. \<open>db_fault env t l\<close> is the
  exception that the database call made at step \<open>t\<close> with lead \<open>l\<close> raises, if any
  (no connection, a value the column types refuse, ...); \<open>s3_fault\<close> likewise for
  \<^verbatim>\<open>put_object\<close> and the serialisation of its body.
\<close>

record fernet_lib =
  generate_key :: "bytes \<Rightarrow> bytes"
  key_ok :: "bytes \<Rightarrow> bool"
  fencrypt :: "bytes \<Rightarrow> bytes \<times> bytes \<Rightarrow> bytes \<Rightarrow> bytes"
  fdecrypt :: "bytes \<Rightarrow> bytes \<Rightarrow> bytes option"

text \<open>
  \<open>generate_key lib r\<close> is \<^verbatim>\<open>Fernet.generate_key()\<close> when the random source gives
  \<open>r\<close>; \<open>key_ok lib k\<close> says that \<^verbatim>\<open>Fernet(k)\<close> accepts the key;
  \<open>fencrypt lib k (time, iv) x\<close> is the token \<^verbatim>\<open>Fernet(k).encrypt(x)\<close> builds
  when the clock gives \<open>time\<close> and the random source gives \<open>iv\<close>;
  \<open>fdecrypt lib k tok\<close> is \<^verbatim>\<open>Fernet(k).decrypt(tok)\<close>, \<open>None\<close> standing for
  \<^verbatim>\<open>InvalidToken\<close>.
\<close>

definition fernet_laws :: "fernet_lib \<Rightarrow> bool" where
  "fernet_laws lib \<longleftrightarrow>
     (\<forall>r. key_ok lib (generate_key lib r)) \<and>
     (\<forall>k d x. key_ok lib k \<longrightarrow> fdecrypt lib k (fencrypt lib k d x) = Some x) \<and>
     (\<forall>k d x. length x < length (fencrypt lib k d x)) \<and>
     (\<forall>k d d' x. d \<noteq> d' \<longrightarrow> fencrypt lib k d x \<noteq> fencrypt lib k d' x) \<and>
     (\<forall>k d x. \<forall>c\<in>set (fencrypt lib k d x). (of_char c :: nat) < 0x80)"

text \<open>
  The laws: a generated key is accepted; decryption inverts encryption under an accepted
  key; a token is longer than its plaintext (version byte, timestamp, IV, padded
  ciphertext and HMAC, in base64); a token carries its timestamp and IV in the clear, so
  that different ones give different tokens; a token is base64 text, so ASCII.
\<close>

subsection \<open>Module constants and the dataclass defaults\<close>

record InsuranceLead_class =
  default_created_at :: str
  default_imported_at :: str

text \<open>
  \<^verbatim>\<open>ENCRYPTION_KEY\<close> is the \<^verbatim>\<open>str\<close> that \<^verbatim>\<open>os.getenv\<close> returns, or the
  \<^verbatim>\<open>bytes\<close> that \<^verbatim>\<open>Fernet.generate_key()\<close> returns.
\<close>

datatype key_material = Key_str str | Key_bytes bytes

record module =
  ENCRYPTION_KEY :: key_material
  InsuranceLead_cls :: InsuranceLead_class

text \<open>
  Loading the module evaluates, in this order, the constant \<^verbatim>\<open>ENCRYPTION_KEY\<close> and
  the body of the class \<^verbatim>\<open>InsuranceLead\<close>, whose two \<^verbatim>\<open>datetime.now\<close>
  calls give the defaults of \<^verbatim>\<open>created_at\<close> and \<^verbatim>\<open>imported_at\<close>.
\<close>

definition load_module :: "fernet_lib \<Rightarrow> env \<Rightarrow> world \<Rightarrow> module \<times> world" where
  "load_module lib env w =
     (let key = (case getenv env ''HIPAA_ENCRYPTION_KEY'' of
                   Some k \<Rightarrow> Key_str k
                 | None \<Rightarrow> Key_bytes (generate_key lib (urandom env (tick w))));
          cls = \<lparr>default_created_at = now env (tick w + 1),
                 default_imported_at = now env (tick w + 2)\<rparr>
      in (\<lparr>ENCRYPTION_KEY = key, InsuranceLead_cls = cls\<rparr>, w\<lparr>tick := tick w + 3\<rparr>))"

text \<open>
  The arguments of a constructor call: the six required ones, and \<open>None\<close> for each
  optional one the caller leaves out.
\<close>

record lead_args =
  arg_lead_id :: str
  arg_source :: str
  arg_first_name :: str
  arg_last_name :: str
  arg_email :: str
  arg_phone :: str
  arg_date_of_birth :: "str option"
  arg_zip_code :: "str option"
  arg_state :: "str option"
  arg_coverage_type :: "str option"
  arg_household_income :: "str option"
  arg_health_conditions :: "str option"
  arg_current_coverage :: "bool option"
  arg_preferred_contact_time :: "str option"
  arg_notes :: "str option"
  arg_created_at :: "str option"
  arg_imported_at :: "str option"
  arg_consent_given :: "bool option"
  arg_tcpa_compliant :: "bool option"

definition new_InsuranceLead :: "InsuranceLead_class \<Rightarrow> lead_args \<Rightarrow> InsuranceLead" where
  "new_InsuranceLead cls a =
     \<lparr>lead_id = arg_lead_id a, source = arg_source a,
      first_name = arg_first_name a, last_name = arg_last_name a,
      email = arg_email a, phone = arg_phone a,
      date_of_birth = arg_date_of_birth a, zip_code = arg_zip_code a,
      state = arg_state a, coverage_type = arg_coverage_type a,
      household_income = arg_household_income a,
      health_conditions = arg_health_conditions a,
      current_coverage = arg_current_coverage a,
      preferred_contact_time = arg_preferred_contact_time a,
      lead_notes = arg_notes a,
      created_at = (case arg_created_at a of None \<Rightarrow> default_created_at cls | Some s \<Rightarrow> s),
      imported_at = (case arg_imported_at a of None \<Rightarrow> default_imported_at cls | Some s \<Rightarrow> s),
      consent_given = (case arg_consent_given a of None \<Rightarrow> False | Some b \<Rightarrow> b),
      tcpa_compliant = (case arg_tcpa_compliant a of None \<Rightarrow> False | Some b \<Rightarrow> b)\<rparr>"

subsection \<open>Logger and audit trail\<close>

text \<open>The logger is configured at level \<^verbatim>\<open>INFO\<close>: debug messages are dropped.\<close>

definition logger :: "level \<Rightarrow> str \<Rightarrow> world \<Rightarrow> world" where
  "logger lvl msg w = (if lvl = DEBUG then w else w\<lparr>log_lines := log_lines w @ [(lvl, msg)]\<rparr>)"

definition get_ip_address :: "env \<Rightarrow> nat \<Rightarrow> str" where
  "get_ip_address env t = (case ip_lookup env t of Some a \<Rightarrow> a | None \<Rightarrow> lit ''unknown'')"

text \<open>The dictionary \<^verbatim>\<open>event\<close> that \<^verbatim>\<open>log_event\<close> builds at step \<open>t\<close>.\<close>

definition mk_event :: "env \<Rightarrow> nat \<Rightarrow> str \<Rightarrow> str \<Rightarrow> (string \<times> jval) list \<Rightarrow> audit_event" where
  "mk_event env t ty lid det =
     \<lparr>timestamp = now env t, event_type = ty, subject = lid, details = det,
      user = (case getenv env ''USER'' of Some u \<Rightarrow> u | None \<Rightarrow> lit ''system''),
      ip_address = get_ip_address env t\<rparr>"

definition log_event :: "env \<Rightarrow> str \<Rightarrow> str \<Rightarrow> (string \<times> jval) list \<Rightarrow> world \<Rightarrow> world" where
  "log_event env ty lid det w =
     (let event = mk_event env (tick w) ty lid det
      in logger INFO (lit ''Audit: '' @ ty @ lit '' for lead '' @ lid)
           (w\<lparr>audit := audit w @ [event], tick := Suc (tick w)\<rparr>))"

subsection \<open>\<^verbatim>\<open>HIPAACompliantEncryption\<close>\<close>

record HIPAACompliantEncryption =
  cipher :: bytes

text \<open>
  The constructor: a \<^verbatim>\<open>str\<close> key is encoded first, then \<^verbatim>\<open>Fernet(key)\<close>
  accepts the key or raises \<^verbatim>\<open>ValueError\<close>.
\<close>

definition HIPAACompliantEncryption_init ::
  "fernet_lib \<Rightarrow> key_material \<Rightarrow> world \<Rightarrow> exn + HIPAACompliantEncryption \<times> world" where
  "HIPAACompliantEncryption_init lib key w =
     (case (case key of Key_str s \<Rightarrow> encode s | Key_bytes b \<Rightarrow> Inr b) of
        Inl e \<Rightarrow> Inl e
      | Inr k \<Rightarrow>
          if key_ok lib k
          then Inr (\<lparr>cipher = k\<rparr>, logger INFO (lit ''Initialized HIPAA encryption'') w)
          else Inl (Raised ''ValueError''
                      (lit ''Fernet key must be 32 url-safe base64-encoded bytes.'')))"

text \<open>What a call of Fernet made at step \<open>t\<close> draws from the outside.\<close>

definition draw :: "env \<Rightarrow> nat \<Rightarrow> bytes \<times> bytes" where
  "draw env t = (time_time env t, urandom env t)"

text \<open>
  \<^verbatim>\<open>encrypt\<close>, called at step \<open>t\<close>: the result or the exception, and the step
  after it. The step moves only when Fernet is called.
\<close>

definition encrypt ::
  "fernet_lib \<Rightarrow> env \<Rightarrow> HIPAACompliantEncryption \<Rightarrow> str \<Rightarrow> nat \<Rightarrow> (exn + str) \<times> nat" where
  "encrypt lib env self data t =
     (if data = [] then (Inr [], t)
      else case encode data of
             Inl e \<Rightarrow> (Inl e, t)
           | Inr b \<Rightarrow> (decode (fencrypt lib (cipher self) (draw env t) b), Suc t))"


subsection \<open>\<^verbatim>\<open>LeadImporter\<close>\<close>

record LeadImporter =
  encryption :: HIPAACompliantEncryption

definition LeadImporter_init :: "fernet_lib \<Rightarrow> module \<Rightarrow> world \<Rightarrow> exn + LeadImporter \<times> world" where
  "LeadImporter_init lib m w =
     (case HIPAACompliantEncryption_init lib (ENCRYPTION_KEY m) w of
        Inl e \<Rightarrow> Inl e
      | Inr (enc, w1) \<Rightarrow>
          Inr (\<lparr>encryption = enc\<rparr>,
               logger INFO (lit ''Initialized LeadImporter'')
                 (logger INFO (lit ''Audit logging to /tmp/insurance_lead_audit.jsonl'') w1)))"

text \<open>
  The loop of \<^verbatim>\<open>_encrypt_lead\<close> over the field names, from step \<open>t\<close>: a field that
  is \<^verbatim>\<open>None\<close> or empty is left alone, any other is replaced by what
  \<^verbatim>\<open>encrypt\<close> returns; an exception of \<^verbatim>\<open>encrypt\<close> ends the loop.
\<close>

fun encrypt_fields ::
  "fernet_lib \<Rightarrow> env \<Rightarrow> HIPAACompliantEncryption \<Rightarrow> hipaa_field list \<Rightarrow> InsuranceLead \<Rightarrow> nat
     \<Rightarrow> (exn + InsuranceLead) \<times> nat" where
  "encrypt_fields lib env self [] encrypted_lead t = (Inr encrypted_lead, t)"
| "encrypt_fields lib env self (f # fs) encrypted_lead t =
     (case getattr encrypted_lead f of
        None \<Rightarrow> encrypt_fields lib env self fs encrypted_lead t
      | Some v \<Rightarrow>
          if v = [] then encrypt_fields lib env self fs encrypted_lead t
          else (case encrypt lib env self v t of
                  (Inl e, t') \<Rightarrow> (Inl e, t')
                | (Inr encrypted_value, t') \<Rightarrow>
                    encrypt_fields lib env self fs
                      (setattr encrypted_lead f encrypted_value) t'))"

definition encrypt_lead_at ::
  "fernet_lib \<Rightarrow> env \<Rightarrow> HIPAACompliantEncryption \<Rightarrow> nat \<Rightarrow> InsuranceLead
     \<Rightarrow> (exn + InsuranceLead) \<times> nat" where
  "encrypt_lead_at lib env self t lead = encrypt_fields lib env self get_hipaa_fields lead t"

fun raised :: "exn + 'a \<Rightarrow> exn option" where
  "raised (Inl e) = Some e"
| "raised (Inr x) = None"

definition encrypt_lead ::
  "fernet_lib \<Rightarrow> env \<Rightarrow> LeadImporter \<Rightarrow> InsuranceLead \<Rightarrow> world
     \<Rightarrow> (exn + InsuranceLead) \<times> world" where
  "encrypt_lead lib env self lead w =
     (let (r, t') = encrypt_lead_at lib env (encryption self) (tick w) lead
      in (r, w\<lparr>calls := calls w @ [Encrypt_call lead (raised r)], tick := t'\<rparr>))"

text \<open>
  \<^verbatim>\<open>INSERT ... ON CONFLICT (lead_id) DO UPDATE SET imported_at = EXCLUDED.imported_at\<close>
  on the table.
\<close>

definition upsert :: "InsuranceLead \<Rightarrow> InsuranceLead list \<Rightarrow> InsuranceLead list" where
  "upsert lead rows =
     (if lead_id lead \<in> set (map lead_id rows)
      then map (\<lambda>r. if lead_id r = lead_id lead then r\<lparr>imported_at := imported_at lead\<rparr> else r) rows
      else rows @ [lead])"

text \<open>
  \<^verbatim>\<open>_store_lead\<close>: the statements run in one transaction, committed at the end, so a
  call that raises leaves the table as it was.
\<close>

definition store_lead :: "env \<Rightarrow> InsuranceLead \<Rightarrow> world \<Rightarrow> (exn + unit) \<times> world" where
  "store_lead env lead w =
     (case db_fault env (tick w) lead of
        Some e \<Rightarrow> (Inl e, w\<lparr>calls := calls w @ [Store_call lead (Some e)], tick := Suc (tick w)\<rparr>)
      | None \<Rightarrow>
          (Inr (), logger DEBUG (lit ''Stored lead '' @ lead_id lead @ lit '' in database'')
             (w\<lparr>db := upsert lead (db w), calls := calls w @ [Store_call lead None],
                tick := Suc (tick w)\<rparr>)))"

definition archive_key :: "InsuranceLead \<Rightarrow> str" where
  "archive_key lead =
     lit ''leads/'' @ source lead @ lit ''/'' @ take 10 (created_at lead) @ lit ''/''
       @ lead_id lead @ lit ''.json''"

definition archive_to_s3 :: "env \<Rightarrow> InsuranceLead \<Rightarrow> world \<Rightarrow> world" where
  "archive_to_s3 env lead w =
     (let key = archive_key lead in
      case s3_fault env (tick w) lead of
        None \<Rightarrow>
          logger DEBUG (lit ''Archived lead '' @ lead_id lead @ lit '' to S3'')
            (w\<lparr>s3 := (s3 w)(key \<mapsto> lead), calls := calls w @ [Archive_call lead None],
               tick := Suc (tick w)\<rparr>)
      | Some e \<Rightarrow>
          logger WARNING (lit ''S3 archiving failed for '' @ lead_id lead @ lit '': '' @ str_exn e)
            (w\<lparr>calls := calls w @ [Archive_call lead (Some e)], tick := Suc (tick w)\<rparr>))"

text \<open>
  The body of the \<^verbatim>\<open>try\<close> in \<^verbatim>\<open>process_leads\<close> for one lead. The result is the
  exception that left the block, or whether the lead was counted (\<open>False\<close> for the
  \<^verbatim>\<open>continue\<close> of a rejected lead).
\<close>

definition try_body ::
  "fernet_lib \<Rightarrow> env \<Rightarrow> LeadImporter \<Rightarrow> InsuranceLead \<Rightarrow> world \<Rightarrow> (exn + bool) \<times> world" where
  "try_body lib env self lead w =
     (if \<not> consent_given lead \<or> \<not> tcpa_compliant lead
      then (Inr False,
            log_event env (lit ''lead_rejected'') (lead_id lead)
              [(''reason'', JStr (lit ''missing_consent''))]
              (logger WARNING (lit ''Skipping lead '' @ lead_id lead @ lit '': missing consent'') w))
      else
        (case encrypt_lead lib env self lead w of
           (Inl e, w1) \<Rightarrow> (Inl e, w1)
         | (Inr encrypted_lead, w1) \<Rightarrow>
             (case store_lead env encrypted_lead w1 of
                (Inl e, w2) \<Rightarrow> (Inl e, w2)
              | (Inr u, w2) \<Rightarrow>
                  (Inr True,
                   log_event env (lit ''lead_imported'') (lead_id lead)
                     [(''source'', JStr (source lead)),
                      (''coverage_type'', jopt (coverage_type lead)),
                      (''encrypted'', JBool True)]
                     (archive_to_s3 env encrypted_lead w2)))))"

text \<open>One round of the loop: the \<^verbatim>\<open>try\<close> with its \<^verbatim>\<open>except Exception\<close>.\<close>

definition process_lead ::
  "fernet_lib \<Rightarrow> env \<Rightarrow> LeadImporter \<Rightarrow> world \<times> int \<Rightarrow> InsuranceLead \<Rightarrow> world \<times> int" where
  "process_lead lib env self wc lead =
     (case try_body lib env self lead (fst wc) of
        (Inr counted, w') \<Rightarrow> (w', if counted then snd wc + 1 else snd wc)
      | (Inl e, w') \<Rightarrow>
          (log_event env (lit ''lead_import_failed'') (lead_id lead)
             [(''error'', JStr (str_exn e))]
             (logger ERROR (lit ''Failed to process lead '' @ lead_id lead @ lit '': '' @ str_exn e) w'),
           snd wc))"

definition process_leads ::
  "fernet_lib \<Rightarrow> env \<Rightarrow> LeadImporter \<Rightarrow> InsuranceLead list \<Rightarrow> world \<Rightarrow> int \<times> world" where
  "process_leads lib env self leads w =
     (let w0 = logger INFO (lit ''Processing '' @ str_nat (length leads) @ lit '' leads'') w;
          (w1, processed_count) = foldl (process_lead lib env self) (w0, 0) leads
      in (processed_count,
          logger INFO (lit ''Successfully processed '' @ str_int processed_count @ lit ''/''
                         @ str_nat (length leads) @ lit '' leads'') w1))"

text \<open>
  \<^verbatim>\<open>main\<close> after the module is loaded. The three source adapters are outside the
  pipeline: \<open>fetched\<close> is the list the chosen one returns. The result is the exception
  that ends the run, if one does, and the world the run leaves.
\<close>

definition main :: "fernet_lib \<Rightarrow> env \<Rightarrow> module \<Rightarrow> InsuranceLead list \<Rightarrow> world \<Rightarrow> exn option \<times> world" where
  "main lib env m fetched w =
     (case LeadImporter_init lib m w of
        Inl e \<Rightarrow> (Some e, w)
      | Inr (importer, w1) \<Rightarrow>
          if fetched \<noteq> []
          then (let (count, w2) = process_leads lib env importer fetched w1
                in (None, logger INFO (lit ''Import complete: '' @ str_int count
                                         @ lit '' leads processed'') w2))
          else (None, logger WARNING (lit ''No leads imported'') w1))"

definition run :: "fernet_lib \<Rightarrow> env \<Rightarrow> InsuranceLead list \<Rightarrow> world \<Rightarrow> exn option \<times> world" where
  "run lib env fetched w = (let (m, w1) = load_module lib env w in main lib env m fetched w1)"

subsection \<open>Vocabulary of the properties\<close>

text \<open>
  The lead a recorded call received, the entries of one kind in an audit trail, and the
  test of the consent check.
\<close>

fun call_arg :: "call \<Rightarrow> InsuranceLead" where
  "call_arg (Encrypt_call l x) = l"
| "call_arg (Store_call l x) = l"
| "call_arg (Archive_call l x) = l"

fun is_encrypt_call :: "call \<Rightarrow> bool" where
  "is_encrypt_call (Encrypt_call l x) = True"
| "is_encrypt_call c = False"

definition events_of :: "str \<Rightarrow> audit_event list \<Rightarrow> audit_event list" where
  "events_of ty evs = filter (\<lambda>ev. event_type ev = ty) evs"

definition admitted :: "InsuranceLead \<Rightarrow> bool" where
  "admitted l \<longleftrightarrow> \<not> (\<not> consent_given l \<or> \<not> tcpa_compliant l)"

text \<open>
  A field \<open>v\<close> and what stands in its place once the lead is protected: absent stays
  absent, empty stays empty, and anything else is the text of a token that Fernet made,
  under the importer's key, of the UTF-8 bytes of the field.
\<close>

definition sealed ::
  "fernet_lib \<Rightarrow> env \<Rightarrow> HIPAACompliantEncryption \<Rightarrow> str option \<Rightarrow> str option \<Rightarrow> bool" where
  "sealed lib env self v v' \<longleftrightarrow>
     (case v of
        None \<Rightarrow> v' = None
      | Some x \<Rightarrow>
          if x = [] then v' = Some []
          else \<exists>t b. encode x = Inr b \<and>
                 v' = Some (lit (fencrypt lib (cipher self) (draw env t) b)))"

text \<open>Two leads that agree on every field that is not one of the five.\<close>

definition same_plain :: "InsuranceLead \<Rightarrow> InsuranceLead \<Rightarrow> bool" where
  "same_plain a b \<longleftrightarrow>
     lead_id a = lead_id b \<and> source a = source b \<and> first_name a = first_name b \<and>
     last_name a = last_name b \<and> zip_code a = zip_code b \<and> state a = state b \<and>
     coverage_type a = coverage_type b \<and> current_coverage a = current_coverage b \<and>
     preferred_contact_time a = preferred_contact_time b \<and> lead_notes a = lead_notes b \<and>
     created_at a = created_at b \<and> imported_at a = imported_at b \<and>
     consent_given a = consent_given b \<and> tcpa_compliant a = tcpa_compliant b"

text \<open>
  A store call that returned; what a call that raised inside the \<^verbatim>\<open>try\<close> should
  leave in the audit trail (the lead's id and the text of the exception); what the
  \<^verbatim>\<open>lead_import_failed\<close> entries of a trail say.
\<close>

fun is_store_done :: "call \<Rightarrow> bool" where
  "is_store_done (Store_call l None) = True"
| "is_store_done c = False"

fun failure_report :: "call \<Rightarrow> (str \<times> (string \<times> jval) list) list" where
  "failure_report (Encrypt_call l (Some ex)) = [(lead_id l, [(''error'', JStr (str_exn ex))])]"
| "failure_report (Store_call l (Some ex)) = [(lead_id l, [(''error'', JStr (str_exn ex))])]"
| "failure_report c = []"

definition reported_failures :: "audit_event list \<Rightarrow> (str \<times> (string \<times> jval) list) list" where
  "reported_failures evs =
     map (\<lambda>ev. (subject ev, details ev)) (events_of (lit ''lead_import_failed'') evs)"

text \<open>
  Two states of a run that differ at most in what concerns the archive: the same table,
  audit trail, step counter and count.
\<close>

definition same_but_archive :: "world \<times> int \<Rightarrow> world \<times> int \<Rightarrow> bool" where
  "same_but_archive a b \<longleftrightarrow>
     db (fst a) = db (fst b) \<and> audit (fst a) = audit (fst b) \<and> tick (fst a) = tick (fst b) \<and>
     snd a = snd b"

subsection \<open>A concrete instance\<close>

text \<open>
  A stand-in for Fernet that satisfies \<open>fernet_laws\<close>, an outside and a few leads, to
  evaluate the pipeline on. A token of the stand-in is the timestamp, the IV, the key and
  the plaintext, each framed so that it can be read back: every byte is written as a
  \<open>1\<close> and two letters, and a \<open>0\<close> ends the frame.
\<close>

definition nibbles :: "char \<Rightarrow> bytes" where
  "nibbles c = [char_of (97 + (of_char c :: nat) div 16), char_of (97 + (of_char c :: nat) mod 16)]"

definition frame :: "bytes \<Rightarrow> bytes" where
  "frame s = concat (map (\<lambda>c. CHR ''1'' # nibbles c) s) @ ''0''"

fun unframe :: "bytes \<Rightarrow> (bytes \<times> bytes) option" where
  "unframe (c # hi # lo # rest) =
     (if c = CHR ''0'' then Some ([], hi # lo # rest)
      else map_option (\<lambda>(s, r). (char_of (((of_char hi :: nat) - 97) * 16 + (of_char lo - 97)) # s, r))
             (unframe rest))"
| "unframe (c # rest) = (if c = CHR ''0'' then Some ([], rest) else None)"
| "unframe [] = None"

definition demo_fernet :: fernet_lib where
  "demo_fernet =
     \<lparr>generate_key = (\<lambda>r. take 44 (r @ replicate 44 (CHR ''A''))),
      key_ok = (\<lambda>k. length k = 44),
      fencrypt = (\<lambda>k d x. frame (fst d) @ frame (snd d) @ frame k @ frame x),
      fdecrypt = (\<lambda>k tok.
         case unframe tok of None \<Rightarrow> None
         | Some (t, r1) \<Rightarrow>
             (case unframe r1 of None \<Rightarrow> None
              | Some (iv, r2) \<Rightarrow>
                  (case unframe r2 of None \<Rightarrow> None
                   | Some (k', r3) \<Rightarrow>
                       (case unframe r3 of None \<Rightarrow> None
                        | Some (x, r4) \<Rightarrow> if k' = k \<and> r4 = [] then Some x else None))))\<rparr>"

text \<open>
  In \<open>demo_env\<close> no environment variable is set, the address lookup fails, the database
  refuses lead \<open>L3\<close> and S3 refuses lead \<open>L2\<close>.
\<close>

definition demo_env :: env where
  "demo_env =
     \<lparr>getenv = (\<lambda>n. None),
      now = (\<lambda>t. lit ''2025-11-14T00:00:'' @ str_nat t),
      time_time = (\<lambda>t. ''00000000''),
      urandom = (\<lambda>t. replicate (Suc t) (CHR ''r'')),
      ip_lookup = (\<lambda>t. None),
      db_fault = (\<lambda>t l. if lead_id l = lit ''L3''
                         then Some (Raised ''OperationalError'' (lit ''connection refused''))
                         else None),
      s3_fault = (\<lambda>t l. if lead_id l = lit ''L2''
                         then Some (Raised ''ClientError'' (lit ''no bucket'')) else None)\<rparr>"

definition world0 :: world where
  "world0 = \<lparr>db = [], s3 = Map.empty, audit = [], log_lines = [], calls = [], tick = 0\<rparr>"

definition demo_lead :: "string \<Rightarrow> bool \<Rightarrow> bool \<Rightarrow> InsuranceLead" where
  "demo_lead i c t =
     \<lparr>lead_id = lit i, source = lit ''csv'', first_name = lit ''Ann'', last_name = lit ''Lee'',
      email = lit ''a@x.org'', phone = lit ''555'', date_of_birth = Some (lit ''1970-01-01''),
      zip_code = None, state = None, coverage_type = Some (lit ''aca''),
      household_income = Some [], health_conditions = None, current_coverage = None,
      preferred_contact_time = None, lead_notes = None,
      created_at = lit ''2025-11-14T00:00:00'', imported_at = lit ''2025-11-14T00:00:00'',
      consent_given = c, tcpa_compliant = t\<rparr>"

text \<open>An admitted lead whose \<open>email\<close> is a lone surrogate.\<close>

definition demo_lead_surrogate :: "string \<Rightarrow> InsuranceLead" where
  "demo_lead_surrogate i = (demo_lead i True True)\<lparr>email := [0xD800]\<rparr>"

definition demo_importer :: LeadImporter where
  "demo_importer = \<lparr>encryption = \<lparr>cipher = replicate 44 (CHR ''A'')\<rparr>\<rparr>"

text \<open>The arguments \<^verbatim>\<open>import_from_csv\<close> passes to the constructor, for one row.\<close>

definition demo_args :: "string \<Rightarrow> lead_args" where
  "demo_args i =
     \<lparr>arg_lead_id = lit i, arg_source = lit ''csv'', arg_first_name = lit ''Ann'',
      arg_last_name = lit ''Lee'', arg_email = lit ''a@x.org'', arg_phone = lit ''555'',
      arg_date_of_birth = Some (lit ''1970-01-01''), arg_zip_code = Some (lit ''10001''),
      arg_state = Some (lit ''NY''), arg_coverage_type = Some (lit ''aca''),
      arg_household_income = None, arg_health_conditions = None, arg_current_coverage = None,
      arg_preferred_contact_time = None, arg_notes = None,
      arg_created_at = None, arg_imported_at = None,
      arg_consent_given = Some True, arg_tcpa_compliant = Some True\<rparr>"

section \<open>Properties\<close>

subsection \<open>UTF-8\<close>










lemma utf8_bytes_range:
  assumes "utf8_bytes c = Some b"
  shows "b \<noteq> [] \<and> (\<forall>v\<in>set b. v < 256)"
proof -
  have "c < 0x800 \<Longrightarrow> c div 64 < 32" by (simp add: less_mult_imp_div_less)
  moreover have "c < 0x10000 \<Longrightarrow> c div 4096 < 16" by (simp add: less_mult_imp_div_less)
  moreover have "c < 0x110000 \<Longrightarrow> c div 262144 < 8" by (simp add: less_mult_imp_div_less)
  moreover have "c mod 64 < 64" "c div 64 mod 64 < 64" "c div 4096 mod 64 < 64" by simp_all
  ultimately show ?thesis using assms
    by (auto simp: utf8_bytes.simps split: if_splits)
qed

lemma utf8_encode_range:
  "utf8_encode x = Some b \<Longrightarrow> length x \<le> length b \<and> (\<forall>v\<in>set b. v < 256)"
proof (induction x arbitrary: b)
  case Nil
  then show ?case by simp
next
  case (Cons c cs)
  then obtain b0 r where b0: "utf8_bytes c = Some b0" and r: "utf8_encode cs = Some r" and b: "b = b0 @ r"
    by (auto split: option.splits)
  from utf8_bytes_range [OF b0] have "1 \<le> length b0" "\<forall>v\<in>set b0. v < 256"
    by (simp_all add: Suc_le_eq)
  with Cons.IH [OF r] b show ?case by auto
qed

lemma utf8_ascii:
  "\<forall>v\<in>set b. v < 128 \<Longrightarrow> utf8_decode b = Some b \<and> utf8_encode b = Some b"
  by (induction b) (simp_all add: utf8_bytes.simps)



lemma encode_length: "encode x = Inr b \<Longrightarrow> length x \<le> length b"
  by (auto simp: encode_def split: option.splits dest: utf8_encode_range)

lemma encode_Nil [simp]: "encode [] = Inr []"
  by (simp add: encode_def)

lemma ascii_text:
  assumes "\<forall>c\<in>set b. (of_char c :: nat) < 128"
  shows "decode b = Inr (lit b)" and "encode (lit b) = Inr b"
proof -
  from assms have a: "\<forall>v\<in>set (map of_char b :: nat list). v < 128" by simp
  from utf8_ascii [OF a] show "decode b = Inr (lit b)" by (simp add: decode_def lit_def)
  from utf8_ascii [OF a] show "encode (lit b) = Inr b"
    by (simp add: encode_def lit_def comp_def)
qed

lemma lit_eq_iff [simp]: "lit a = lit b \<longleftrightarrow> a = b"
  by (simp add: lit_def inj_on_def)

lemma lit_simps [simp]:
  "lit [] = []" "lit (a @ b) = lit a @ lit b" "length (lit a) = length a" "lit a = [] \<longleftrightarrow> a = []"
  by (simp_all add: lit_def)

lemma encode_surrogate:
  "encode [0xD800] = Inl (Raised ''UnicodeEncodeError'' (lit ''surrogates not allowed''))"
  by (simp add: encode_def utf8_bytes.simps)

lemma str_nat_digit: "n < 10 \<Longrightarrow> str_nat n = [48 + n]"
  by (simp add: str_nat.simps)

subsection \<open>The stand-in cipher satisfies the laws\<close>

lemma nibbles_back:
  "char_of (((of_char (char_of (97 + (of_char c :: nat) div 16)) :: nat) - 97) * 16
     + (of_char (char_of (97 + (of_char c :: nat) mod 16)) - 97)) = c"
proof -
  have "(of_char c :: nat) < 256" by simp
  then have d: "(of_char c :: nat) div 16 < 16" by (simp add: less_mult_imp_div_less)
  have m: "(of_char c :: nat) mod 16 < 16" by simp
  from d have "(97 + (of_char c :: nat) div 16) mod 256 = 97 + of_char c div 16" by simp
  moreover from m have "(97 + (of_char c :: nat) mod 16) mod 256 = 97 + of_char c mod 16" by simp
  ultimately show ?thesis by simp
qed

lemma unframe_frame: "unframe (frame s @ r) = Some (s, r)"
proof (induction s)
  case Nil
  show ?case
    by (cases r rule: unframe.cases) (simp_all add: frame_def)
next
  case (Cons c s)
  then show ?case
    using nibbles_back [of c] by (simp add: frame_def nibbles_def)
qed

lemma frame_inj: "frame a @ r = frame b @ r' \<Longrightarrow> a = b \<and> r = r'"
  by (metis unframe_frame option.inject prod.inject)

lemma length_frame: "length (frame s) = 3 * length s + 1"
  by (induction s) (simp_all add: frame_def nibbles_def)

lemma frame_ascii: "c \<in> set (frame s) \<Longrightarrow> (of_char c :: nat) < 128"
proof (induction s)
  case Nil
  then show ?case by (simp add: frame_def)
next
  case (Cons a s)
  have "(of_char a :: nat) < 256" by simp
  then have d: "(of_char a :: nat) div 16 < 16" by (simp add: less_mult_imp_div_less)
  have m: "(of_char a :: nat) mod 16 < 16" by simp
  from d have 1: "(97 + (of_char a :: nat) div 16) mod 256 = 97 + of_char a div 16" by simp
  from m have 2: "(97 + (of_char a :: nat) mod 16) mod 256 = 97 + of_char a mod 16" by simp
  from Cons d m 1 2 show ?case
    by (auto simp: frame_def nibbles_def)
qed

lemma demo_fernet_laws: "fernet_laws demo_fernet"
proof -
  have gen: "\<forall>r. key_ok demo_fernet (generate_key demo_fernet r)"
    by (auto simp: demo_fernet_def)
  have inv: "\<forall>k d x. key_ok demo_fernet k \<longrightarrow>
      fdecrypt demo_fernet k (fencrypt demo_fernet k d x) = Some x"
    using unframe_frame [of _ "[]"] by (simp add: demo_fernet_def unframe_frame)
  have longer: "\<forall>k d x. length x < length (fencrypt demo_fernet k d x)"
    by (simp add: demo_fernet_def length_frame)
  have fresh: "\<forall>k d d' x. d \<noteq> d' \<longrightarrow> fencrypt demo_fernet k d x \<noteq> fencrypt demo_fernet k d' x"
  proof (intro allI impI notI)
    fix k x and d d' :: "bytes \<times> bytes"
    assume ne: "d \<noteq> d'" and eq: "fencrypt demo_fernet k d x = fencrypt demo_fernet k d' x"
    from eq have e1: "frame (fst d) @ (frame (snd d) @ frame k @ frame x)
        = frame (fst d') @ (frame (snd d') @ frame k @ frame x)"
      by (simp add: demo_fernet_def)
    from frame_inj [OF e1] have "fst d = fst d'" and
      e2: "frame (snd d) @ (frame k @ frame x) = frame (snd d') @ (frame k @ frame x)" by simp_all
    moreover from frame_inj [OF e2] have "snd d = snd d'" by simp
    ultimately show False using ne by (simp add: prod_eq_iff)
  qed
  have ascii: "\<forall>k d x. \<forall>c\<in>set (fencrypt demo_fernet k d x). (of_char c :: nat) < 0x80"
    by (auto simp: demo_fernet_def dest: frame_ascii)
  show ?thesis unfolding fernet_laws_def using gen inv longer fresh ascii by blast
qed

subsection \<open>What each operation does to the world\<close>

lemma logger_simps [simp]:
  "db (logger lvl msg w) = db w" "s3 (logger lvl msg w) = s3 w"
  "audit (logger lvl msg w) = audit w" "calls (logger lvl msg w) = calls w"
  "tick (logger lvl msg w) = tick w"
  by (simp_all add: logger_def)

lemma log_event_simps [simp]:
  "db (log_event env ty lid det w) = db w" "s3 (log_event env ty lid det w) = s3 w"
  "calls (log_event env ty lid det w) = calls w"
  "tick (log_event env ty lid det w) = Suc (tick w)"
  "audit (log_event env ty lid det w) = audit w @ [mk_event env (tick w) ty lid det]"
  by (simp_all add: log_event_def)

lemma encrypt_lead_simps [simp]:
  "db (snd (encrypt_lead lib env self l w)) = db w"
  "s3 (snd (encrypt_lead lib env self l w)) = s3 w"
  "audit (snd (encrypt_lead lib env self l w)) = audit w"
  "log_lines (snd (encrypt_lead lib env self l w)) = log_lines w"
  "calls (snd (encrypt_lead lib env self l w))
     = calls w @ [Encrypt_call l (raised (fst (encrypt_lead_at lib env (encryption self) (tick w) l)))]"
  "tick (snd (encrypt_lead lib env self l w)) = snd (encrypt_lead_at lib env (encryption self) (tick w) l)"
  "fst (encrypt_lead lib env self l w) = fst (encrypt_lead_at lib env (encryption self) (tick w) l)"
  by (simp_all add: encrypt_lead_def split: prod.splits)

lemma store_lead_simps [simp]:
  "s3 (snd (store_lead env e w)) = s3 w"
  "audit (snd (store_lead env e w)) = audit w"
  "log_lines (snd (store_lead env e w)) = log_lines w"
  "calls (snd (store_lead env e w)) = calls w @ [Store_call e (db_fault env (tick w) e)]"
  "tick (snd (store_lead env e w)) = Suc (tick w)"
  "db (snd (store_lead env e w)) = (case db_fault env (tick w) e of Some ex \<Rightarrow> db w | None \<Rightarrow> upsert e (db w))"
  "fst (store_lead env e w) = (case db_fault env (tick w) e of Some ex \<Rightarrow> Inl ex | None \<Rightarrow> Inr ())"
  by (simp_all add: store_lead_def logger_def split: option.splits)

lemma archive_to_s3_simps [simp]:
  "db (archive_to_s3 env e w) = db w"
  "audit (archive_to_s3 env e w) = audit w"
  "calls (archive_to_s3 env e w) = calls w @ [Archive_call e (s3_fault env (tick w) e)]"
  "tick (archive_to_s3 env e w) = Suc (tick w)"
  "s3 (archive_to_s3 env e w) = (case s3_fault env (tick w) e of Some ex \<Rightarrow> s3 w | None \<Rightarrow> (s3 w)(archive_key e \<mapsto> e))"
  "log_lines (archive_to_s3 env e w) = (case s3_fault env (tick w) e of
       Some ex \<Rightarrow> log_lines w @ [(WARNING, lit ''S3 archiving failed for '' @ lead_id e @ lit '': '' @ str_exn ex)]
     | None \<Rightarrow> log_lines w)"
  by (simp_all add: archive_to_s3_def logger_def split: option.splits)

subsection \<open>\<^verbatim>\<open>encrypt\<close> and \<^verbatim>\<open>decrypt\<close>\<close>

lemma token_text:
  assumes "fernet_laws lib"
  shows "decode (fencrypt lib k d b) = Inr (lit (fencrypt lib k d b))"
    and "encode (lit (fencrypt lib k d b)) = Inr (fencrypt lib k d b)"
proof -
  from assms have "\<forall>c\<in>set (fencrypt lib k d b). (of_char c :: nat) < 128"
    unfolding fernet_laws_def by blast
  then show "decode (fencrypt lib k d b) = Inr (lit (fencrypt lib k d b))"
    and "encode (lit (fencrypt lib k d b)) = Inr (fencrypt lib k d b)"
    by (rule ascii_text)+
qed

lemma encrypt_empty [simp]: "encrypt lib env self [] t = (Inr [], t)"
  by (simp add: encrypt_def)

lemma encrypt_unencodable:
  "x \<noteq> [] \<Longrightarrow> encode x = Inl e \<Longrightarrow> encrypt lib env self x t = (Inl e, t)"
  by (simp add: encrypt_def)

lemma encrypt_encodable:
  "fernet_laws lib \<Longrightarrow> x \<noteq> [] \<Longrightarrow> encode x = Inr b \<Longrightarrow>
   encrypt lib env self x t = (Inr (lit (fencrypt lib (cipher self) (draw env t) b)), Suc t)"
  by (simp add: encrypt_def token_text)

lemma encrypt_returns:
  assumes "fernet_laws lib" and "x \<noteq> []" and "encrypt lib env self x t = (Inr c, t')"
  shows "\<exists>b. encode x = Inr b \<and> c = lit (fencrypt lib (cipher self) (draw env t) b) \<and> t' = Suc t"
proof (cases "encode x")
  case (Inl e)
  with assms show ?thesis by (simp add: encrypt_unencodable)
next
  case (Inr b)
  with assms show ?thesis by (simp add: encrypt_encodable)
qed

lemma token_differs:
  assumes "fernet_laws lib" and "encode x = Inr b"
  shows "lit (fencrypt lib k d b) \<noteq> x"
proof
  assume "lit (fencrypt lib k d b) = x"
  then have "length x = length (fencrypt lib k d b)" by auto
  moreover from assms(1) have "length b < length (fencrypt lib k d b)"
    unfolding fernet_laws_def by blast
  moreover from assms(2) have "length x \<le> length b" by (rule encode_length)
  ultimately show False by simp
qed


subsection \<open>Field encryption\<close>

lemma getattr_setattr: "getattr (setattr l f v) f' = (if f' = f then Some v else getattr l f')"
  by (cases f; cases f'; simp)

lemma same_plain_refl: "same_plain l l"
  by (simp add: same_plain_def)

lemma same_plain_setattr: "same_plain l (setattr l f v)"
  by (cases f) (simp_all add: same_plain_def)

lemma same_plain_trans: "same_plain a b \<Longrightarrow> same_plain b c \<Longrightarrow> same_plain a c"
  by (simp add: same_plain_def)

lemma encrypt_fields_same_plain:
  "fst (encrypt_fields lib env self fs l t) = Inr e \<Longrightarrow> same_plain l e"
proof (induction fs arbitrary: l t)
  case Nil
  then show ?case by (simp add: same_plain_refl)
next
  case (Cons f fs)
  show ?case
  proof (cases "getattr l f = None \<or> getattr l f = Some []")
    case True
    with Cons show ?thesis by auto
  next
    case False
    then obtain v where v: "getattr l f = Some v" "v \<noteq> []" by auto
    obtain r t' where r: "encrypt lib env self v t = (r, t')" by (cases "encrypt lib env self v t")
    show ?thesis
    proof (cases r)
      case (Inl ex)
      with Cons.prems v r show ?thesis by simp
    next
      case (Inr c)
      with Cons.prems v r have "fst (encrypt_fields lib env self fs (setattr l f c) t') = Inr e"
        by simp
      from Cons.IH [OF this] same_plain_setattr [of l f c] show ?thesis
        by (rule same_plain_trans [rotated])
    qed
  qed
qed

lemma encrypt_fields_other:
  "fst (encrypt_fields lib env self fs l t) = Inr e \<Longrightarrow> g \<notin> set fs \<Longrightarrow> getattr e g = getattr l g"
proof (induction fs arbitrary: l t)
  case Nil
  then show ?case by simp
next
  case (Cons f fs)
  from Cons.prems have g: "g \<noteq> f" "g \<notin> set fs" by auto
  show ?case
  proof (cases "getattr l f = None \<or> getattr l f = Some []")
    case True
    with Cons g show ?thesis by auto
  next
    case False
    then obtain v where v: "getattr l f = Some v" "v \<noteq> []" by auto
    obtain r t' where r: "encrypt lib env self v t = (r, t')" by (cases "encrypt lib env self v t")
    show ?thesis
    proof (cases r)
      case (Inl ex)
      with Cons.prems v r show ?thesis by simp
    next
      case (Inr c)
      with Cons.prems v r have "fst (encrypt_fields lib env self fs (setattr l f c) t') = Inr e"
        by simp
      from Cons.IH [OF this g(2)] g(1) show ?thesis by (simp add: getattr_setattr)
    qed
  qed
qed

lemma encrypt_fields_sealed:
  assumes laws: "fernet_laws lib"
  shows "fst (encrypt_fields lib env self fs l t) = Inr e \<Longrightarrow> distinct fs \<Longrightarrow> g \<in> set fs \<Longrightarrow>
         sealed lib env self (getattr l g) (getattr e g)"
proof (induction fs arbitrary: l t)
  case Nil
  then show ?case by simp
next
  case (Cons f fs)
  from Cons.prems have d: "distinct fs" "f \<notin> set fs" by auto
  show ?case
  proof (cases "getattr l f = None \<or> getattr l f = Some []")
    case True
    with Cons.prems have rest: "fst (encrypt_fields lib env self fs l t) = Inr e" by auto
    show ?thesis
    proof (cases "g = f")
      case True
      with encrypt_fields_other [OF rest d(2)] \<open>getattr l f = None \<or> getattr l f = Some []\<close>
      show ?thesis by (auto simp: sealed_def)
    next
      case False
      with Cons.prems have "g \<in> set fs" by simp
      from Cons.IH [OF rest d(1) this] show ?thesis .
    qed
  next
    case False
    then obtain v where v: "getattr l f = Some v" "v \<noteq> []" by auto
    obtain r t' where r: "encrypt lib env self v t = (r, t')" by (cases "encrypt lib env self v t")
    show ?thesis
    proof (cases r)
      case (Inl ex)
      with Cons.prems v r show ?thesis by simp
    next
      case (Inr c)
      with Cons.prems v r have rest: "fst (encrypt_fields lib env self fs (setattr l f c) t') = Inr e"
        by simp
      from encrypt_returns [OF laws v(2)] r Inr obtain b where
        b: "encode v = Inr b" "c = lit (fencrypt lib (cipher self) (draw env t) b)" by blast
      show ?thesis
      proof (cases "g = f")
        case True
        from encrypt_fields_other [OF rest d(2)] have "getattr e f = Some c"
          by (simp add: getattr_setattr)
        with True v b show ?thesis by (auto simp: sealed_def)
      next
        case False
        with Cons.prems have "g \<in> set fs" by simp
        from Cons.IH [OF rest d(1) this] False show ?thesis by (simp add: getattr_setattr)
      qed
    qed
  qed
qed

lemma hipaa_fields_all: "f \<in> set get_hipaa_fields"
  by (cases f) (simp_all add: get_hipaa_fields_def)

lemma hipaa_fields_distinct: "distinct get_hipaa_fields"
  by (simp add: get_hipaa_fields_def)

lemma encrypt_lead_at_sealed:
  "fernet_laws lib \<Longrightarrow> fst (encrypt_lead_at lib env self t l) = Inr e \<Longrightarrow>
   sealed lib env self (getattr l f) (getattr e f)"
  unfolding encrypt_lead_at_def
  by (rule encrypt_fields_sealed [OF _ _ hipaa_fields_distinct hipaa_fields_all])

lemma encrypt_lead_at_same_plain:
  "fst (encrypt_lead_at lib env self t l) = Inr e \<Longrightarrow> same_plain l e"
  unfolding encrypt_lead_at_def by (rule encrypt_fields_same_plain)

lemma lead_id_encrypted: "fst (encrypt_lead_at lib env self t l) = Inr e \<Longrightarrow> lead_id e = lead_id l"
  by (drule encrypt_lead_at_same_plain) (simp add: same_plain_def)

lemma admitted_encrypted: "fst (encrypt_lead_at lib env self t l) = Inr e \<Longrightarrow> admitted e = admitted l"
  by (drule encrypt_lead_at_same_plain) (simp add: same_plain_def admitted_def)

subsection \<open>One round of the loop\<close>

lemma process_lead_calls:
  "calls (fst (process_lead lib env self wc l)) = calls (fst wc) @
     (if \<not> consent_given l \<or> \<not> tcpa_compliant l then []
      else (case encrypt_lead_at lib env (encryption self) (tick (fst wc)) l of
              (Inl ex, t) \<Rightarrow> [Encrypt_call l (Some ex)]
            | (Inr e, t) \<Rightarrow>
                Encrypt_call l None #
                (case db_fault env t e of
                   Some ex \<Rightarrow> [Store_call e (Some ex)]
                 | None \<Rightarrow> [Store_call e None, Archive_call e (s3_fault env (Suc t) e)])))"
  by (simp add: process_lead_def try_body_def store_lead_def encrypt_lead_def Let_def
           split: prod.splits sum.splits option.splits)

lemma process_lead_audit:
  "audit (fst (process_lead lib env self wc l)) = audit (fst wc) @
     [if \<not> consent_given l \<or> \<not> tcpa_compliant l
      then mk_event env (tick (fst wc)) (lit ''lead_rejected'') (lead_id l)
             [(''reason'', JStr (lit ''missing_consent''))]
      else (case encrypt_lead_at lib env (encryption self) (tick (fst wc)) l of
              (Inl ex, t) \<Rightarrow>
                mk_event env t (lit ''lead_import_failed'') (lead_id l) [(''error'', JStr (str_exn ex))]
            | (Inr e, t) \<Rightarrow>
                (case db_fault env t e of
                   Some ex \<Rightarrow> mk_event env (Suc t) (lit ''lead_import_failed'') (lead_id l)
                                [(''error'', JStr (str_exn ex))]
                 | None \<Rightarrow> mk_event env (Suc (Suc t)) (lit ''lead_imported'') (lead_id l)
                      [(''source'', JStr (source l)), (''coverage_type'', jopt (coverage_type l)),
                       (''encrypted'', JBool True)]))]"
  by (simp add: process_lead_def try_body_def store_lead_def encrypt_lead_def Let_def
           split: prod.splits sum.splits option.splits)

lemma process_lead_count:
  "snd (process_lead lib env self wc l) = snd wc +
     (if \<not> consent_given l \<or> \<not> tcpa_compliant l then 0
      else (case encrypt_lead_at lib env (encryption self) (tick (fst wc)) l of
              (Inl ex, t) \<Rightarrow> 0
            | (Inr e, t) \<Rightarrow> (case db_fault env t e of Some ex \<Rightarrow> 0 | None \<Rightarrow> 1)))"
  by (simp add: process_lead_def try_body_def store_lead_def encrypt_lead_def Let_def
           split: prod.splits sum.splits option.splits)

lemma process_lead_db:
  "db (fst (process_lead lib env self wc l)) =
     (if \<not> consent_given l \<or> \<not> tcpa_compliant l then db (fst wc)
      else (case encrypt_lead_at lib env (encryption self) (tick (fst wc)) l of
              (Inl ex, t) \<Rightarrow> db (fst wc)
            | (Inr e, t) \<Rightarrow>
                (case db_fault env t e of Some ex \<Rightarrow> db (fst wc) | None \<Rightarrow> upsert e (db (fst wc)))))"
  by (simp add: process_lead_def try_body_def store_lead_def encrypt_lead_def Let_def
           split: prod.splits sum.splits option.splits)

lemma process_lead_tick:
  "tick (fst (process_lead lib env self wc l)) =
     (if \<not> consent_given l \<or> \<not> tcpa_compliant l then Suc (tick (fst wc))
      else (case encrypt_lead_at lib env (encryption self) (tick (fst wc)) l of
              (Inl ex, t) \<Rightarrow> Suc t
            | (Inr e, t) \<Rightarrow>
                (case db_fault env t e of Some ex \<Rightarrow> Suc (Suc t) | None \<Rightarrow> Suc (Suc (Suc t)))))"
  by (simp add: process_lead_def try_body_def store_lead_def encrypt_lead_def Let_def
           split: prod.splits sum.splits option.splits)

subsection \<open>The loop\<close>

lemma foldl_grows:
  assumes "\<And>acc x. g (f acc x) = g acc @ h x"
  shows "g (foldl f acc xs) = g acc @ concat (map h xs)"
  by (induction xs arbitrary: acc) (simp_all add: assms)

lemma foldl_invariant:
  assumes "I acc" and "\<And>acc x. x \<in> set xs \<Longrightarrow> I acc \<Longrightarrow> I (f acc x)"
  shows "I (foldl f acc xs)"
  using assms by (induction xs arbitrary: acc) simp_all

lemma concat_if_filter: "concat (map (\<lambda>x. if P x then [k x] else []) xs) = map k (filter P xs)"
  by (induction xs) simp_all

lemma process_leads_eq:
  "process_leads lib env self leads w =
     (snd (foldl (process_lead lib env self)
             (logger INFO (lit ''Processing '' @ str_nat (length leads) @ lit '' leads'') w, 0) leads),
      logger INFO (lit ''Successfully processed ''
             @ str_int (snd (foldl (process_lead lib env self)
                  (logger INFO (lit ''Processing '' @ str_nat (length leads) @ lit '' leads'') w, 0) leads))
             @ lit ''/'' @ str_nat (length leads) @ lit '' leads'')
        (fst (foldl (process_lead lib env self)
             (logger INFO (lit ''Processing '' @ str_nat (length leads) @ lit '' leads'') w, 0) leads)))"
  by (simp add: process_leads_def split: prod.splits)

subsection \<open>The stand-in on the sample leads\<close>

lemma encode_lit_ascii: "\<forall>c\<in>set b. (of_char c :: nat) < 128 \<Longrightarrow> encode (lit b) = Inr b"
  by (rule ascii_text)

lemma demo_encrypt:
  assumes "\<forall>c\<in>set b. (of_char c :: nat) < 128" and "b \<noteq> []"
  shows "encrypt demo_fernet demo_env self (lit b) t
     = (Inr (lit (fencrypt demo_fernet (cipher self) (draw demo_env t) b)), Suc t)"
proof -
  from assms(2) have "lit b \<noteq> []" by (simp add: lit_def)
  moreover from assms(1) have "encode (lit b) = Inr b" by (rule ascii_text)
  ultimately show ?thesis by (rule encrypt_encodable [OF demo_fernet_laws])
qed

lemma demo_encrypt_lead_at:
  "encrypt_lead_at demo_fernet demo_env self t (demo_lead i c c')
     = (Inr ((demo_lead i c c')
          \<lparr>email := lit (fencrypt demo_fernet (cipher self) (draw demo_env (Suc (Suc t))) ''a@x.org''),
           phone := lit (fencrypt demo_fernet (cipher self) (draw demo_env (Suc t)) ''555''),
           date_of_birth := Some (lit (fencrypt demo_fernet (cipher self) (draw demo_env t) ''1970-01-01''))\<rparr>),
        Suc (Suc (Suc t)))"
  by (simp add: encrypt_lead_at_def get_hipaa_fields_def demo_lead_def demo_encrypt)

lemma demo_encrypt_lead_at_surrogate:
  "encrypt_lead_at demo_fernet demo_env self t (demo_lead_surrogate i)
     = (Inl (Raised ''UnicodeEncodeError'' (lit ''surrogates not allowed'')), Suc (Suc t))"
  by (simp add: encrypt_lead_at_def get_hipaa_fields_def demo_lead_surrogate_def demo_lead_def
        demo_encrypt encrypt_unencodable encode_surrogate)

subsection \<open>The upsert of the primary store\<close>

lemma filter_key_distinct:
  "distinct (map lead_id rows) \<Longrightarrow> r \<in> set rows \<Longrightarrow>
   filter (\<lambda>x. lead_id x = lead_id r) rows = [r]"
proof (induction rows)
  case Nil
  then show ?case by simp
next
  case (Cons a rows)
  show ?case
  proof (cases "a = r")
    case True
    with Cons.prems have "lead_id r \<notin> lead_id ` set rows" by simp
    then have "filter (\<lambda>x. lead_id x = lead_id r) rows = []"
      unfolding filter_empty_conv by (metis imageI)
    with True show ?thesis by simp
  next
    case False
    with Cons.prems have "r \<in> set rows" "distinct (map lead_id rows)" by simp_all
    moreover from this Cons.prems have "lead_id a \<noteq> lead_id r" by auto
    ultimately show ?thesis using Cons.IH by simp
  qed
qed

lemma upsert_ids: "map lead_id (upsert lead rows) =
    (if lead_id lead \<in> set (map lead_id rows) then map lead_id rows else map lead_id rows @ [lead_id lead])"
  by (simp add: upsert_def comp_def)

lemma upsert_distinct: "distinct (map lead_id rows) \<Longrightarrow> distinct (map lead_id (upsert lead rows))"
  by (simp add: upsert_ids)

lemma upsert_fresh: "lead_id lead \<notin> lead_id ` set rows \<Longrightarrow> upsert lead rows = rows @ [lead]"
  by (simp add: upsert_def)

lemma upsert_present:
  "lead_id lead \<in> lead_id ` set rows \<Longrightarrow>
   upsert lead rows = map (\<lambda>x. if lead_id x = lead_id lead then x\<lparr>imported_at := imported_at lead\<rparr> else x) rows"
  by (simp add: upsert_def)

lemma map_refresh_fresh:
  "k \<notin> lead_id ` set rows \<Longrightarrow> map (\<lambda>x. if lead_id x = k then x\<lparr>imported_at := v\<rparr> else x) rows = rows"
  by (induction rows) auto

lemma filter_refresh:
  "filter (\<lambda>x. lead_id x = k) (map (\<lambda>x. if lead_id x = k then x\<lparr>imported_at := v\<rparr> else x) rows)
     = map (\<lambda>x. x\<lparr>imported_at := v\<rparr>) (filter (\<lambda>x. lead_id x = k) rows)"
  by (induction rows) auto

text \<open>
  Claim C6. When \<^verbatim>\<open>_store_lead\<close> succeeds on a lead whose \<open>lead_id\<close> is already
  the key of a row \<open>r\<close> of the table (keys being unique, as the primary key of the
  table makes them), the table afterwards is the old one with \<open>imported_at\<close> of that
  row replaced by the new lead's value: the same number of rows, exactly one row with
  that key, every other column of it as before, every other row as before. And two
  successful writes of one \<open>lead_id\<close> that was not in the table leave the first
  lead's row, with the \<open>imported_at\<close> of the second.
\<close>

theorem store_lead_existing:
  "(distinct (map lead_id (db w)) \<and> r \<in> set (db w) \<and> lead_id r = lead_id lead \<and>
    store_lead env lead w = (Inr (), w') \<longrightarrow>
      db w' = map (\<lambda>x. if lead_id x = lead_id lead then x\<lparr>imported_at := imported_at lead\<rparr> else x) (db w) \<and>
      filter (\<lambda>x. lead_id x = lead_id lead) (db w') = [r\<lparr>imported_at := imported_at lead\<rparr>] \<and>
      length (db w') = length (db w) \<and>
      distinct (map lead_id (db w'))) \<and>
   (lead_id first \<notin> lead_id ` set (db v) \<and> lead_id second = lead_id first \<and>
    store_lead env first v = (Inr (), v1) \<and> store_lead env second v1 = (Inr (), v2) \<longrightarrow>
      db v2 = db v @ [first\<lparr>imported_at := imported_at second\<rparr>])"
proof (intro conjI impI)
  assume h: "distinct (map lead_id (db w)) \<and> r \<in> set (db w) \<and> lead_id r = lead_id lead \<and>
    store_lead env lead w = (Inr (), w')"
  then have pk: "distinct (map lead_id (db w))" and r: "r \<in> set (db w)"
    and k: "lead_id r = lead_id lead" and st: "store_lead env lead w = (Inr (), w')"
    by simp_all
  from st have dbw': "db w' = upsert lead (db w)"
    by (auto simp: store_lead_def logger_def split: option.splits)
  from r k have "lead_id lead \<in> lead_id ` set (db w)" by (metis imageI)
  from upsert_present [OF this] dbw'
  show m: "db w' = map (\<lambda>x. if lead_id x = lead_id lead then x\<lparr>imported_at := imported_at lead\<rparr> else x) (db w)"
    by simp
  then show "length (db w') = length (db w)" by simp
  from pk dbw' show "distinct (map lead_id (db w'))" by (simp add: upsert_distinct)
  have "filter (\<lambda>x. lead_id x = lead_id lead) (db w') =
        map (\<lambda>x. x\<lparr>imported_at := imported_at lead\<rparr>) (filter (\<lambda>x. lead_id x = lead_id r) (db w))"
    unfolding m k by (rule filter_refresh)
  with filter_key_distinct [OF pk r]
  show "filter (\<lambda>x. lead_id x = lead_id lead) (db w') = [r\<lparr>imported_at := imported_at lead\<rparr>]"
    by simp
next
  assume h: "lead_id first \<notin> lead_id ` set (db v) \<and> lead_id second = lead_id first \<and>
    store_lead env first v = (Inr (), v1) \<and> store_lead env second v1 = (Inr (), v2)"
  then have fresh: "lead_id first \<notin> lead_id ` set (db v)" and k: "lead_id second = lead_id first"
    and s1: "store_lead env first v = (Inr (), v1)" and s2: "store_lead env second v1 = (Inr (), v2)"
    by simp_all
  from s1 have d1: "db v1 = upsert first (db v)"
    by (auto simp: store_lead_def logger_def split: option.splits)
  from s2 have d2: "db v2 = upsert second (db v1)"
    by (auto simp: store_lead_def logger_def split: option.splits)
  from d1 fresh have d1': "db v1 = db v @ [first]" by (simp add: upsert_fresh)
  then have "lead_id second \<in> lead_id ` set (db v1)" using k by simp
  from upsert_present [OF this] d2 d1' k fresh
  show "db v2 = db v @ [first\<lparr>imported_at := imported_at second\<rparr>]"
    by (simp add: map_refresh_fresh)
qed

theorem store_lead_existing_witness:
  "distinct (map lead_id (db (world0\<lparr>db := [demo_lead ''L1'' True True]\<rparr>))) \<and>
   demo_lead ''L1'' True True \<in> set (db (world0\<lparr>db := [demo_lead ''L1'' True True]\<rparr>)) \<and>
   lead_id (demo_lead ''L1'' True True)
     = lead_id ((demo_lead ''L1'' False True)\<lparr>imported_at := lit ''2025-12-01''\<rparr>) \<and>
   fst (store_lead demo_env ((demo_lead ''L1'' False True)\<lparr>imported_at := lit ''2025-12-01''\<rparr>)
          (world0\<lparr>db := [demo_lead ''L1'' True True]\<rparr>)) = Inr () \<and>
   db (snd (store_lead demo_env ((demo_lead ''L1'' False True)\<lparr>imported_at := lit ''2025-12-01''\<rparr>)
          (world0\<lparr>db := [demo_lead ''L1'' True True]\<rparr>)))
     = [(demo_lead ''L1'' True True)\<lparr>imported_at := lit ''2025-12-01''\<rparr>] \<and>
   lead_id (demo_lead ''L1'' True True) \<notin> lead_id ` set (db world0) \<and>
   db (snd (store_lead demo_env ((demo_lead ''L1'' False True)\<lparr>imported_at := lit ''2025-12-01''\<rparr>)
          (snd (store_lead demo_env (demo_lead ''L1'' True True) world0))))
     = [(demo_lead ''L1'' True True)\<lparr>imported_at := lit ''2025-12-01''\<rparr>]"
proof -
  let ?w = "world0\<lparr>db := [demo_lead ''L1'' True True]\<rparr>"
  let ?r = "demo_lead ''L1'' True True"
  let ?l = "(demo_lead ''L1'' False True)\<lparr>imported_at := lit ''2025-12-01''\<rparr>"
  let ?v1 = "snd (store_lead demo_env ?r world0)"
  have h1: "distinct (map lead_id (db ?w))" by simp
  have h2: "?r \<in> set (db ?w)" by simp
  have h3: "lead_id ?r = lead_id ?l" by (simp add: demo_lead_def)
  have f: "fst (store_lead demo_env ?l ?w) = Inr ()" by (simp add: demo_env_def demo_lead_def)
  then have h4: "store_lead demo_env ?l ?w = (Inr (), snd (store_lead demo_env ?l ?w))"
    by (simp add: prod_eq_iff)
  have g1: "lead_id ?r \<notin> lead_id ` set (db world0)" by (simp add: world0_def)
  have "fst (store_lead demo_env ?r world0) = Inr ()" by (simp add: demo_env_def demo_lead_def)
  then have g3: "store_lead demo_env ?r world0 = (Inr (), ?v1)" by (simp add: prod_eq_iff)
  have "fst (store_lead demo_env ?l ?v1) = Inr ()" by (simp add: demo_env_def demo_lead_def)
  then have g4: "store_lead demo_env ?l ?v1 = (Inr (), snd (store_lead demo_env ?l ?v1))"
    by (simp add: prod_eq_iff)
  from store_lead_existing [of ?w ?r ?l demo_env "snd (store_lead demo_env ?l ?w)" ?r world0 ?l ?v1
      "snd (store_lead demo_env ?l ?v1)"] h1 h2 h3 h4 g1 g3 g4 f
  show ?thesis by (simp add: world0_def)
qed

subsection \<open>The consent check\<close>

lemma round_encrypt_args:
  "map call_arg (filter is_encrypt_call (calls (fst (process_lead lib env self wc l))))
     = map call_arg (filter is_encrypt_call (calls (fst wc))) @ (if admitted l then [l] else [])"
  by (simp add: process_lead_calls admitted_def split: prod.splits sum.splits option.splits)

lemma round_calls_admitted:
  assumes "c \<in> set (calls (fst (process_lead lib env self wc l)))"
  shows "c \<in> set (calls (fst wc)) \<or> admitted (call_arg c)"
proof (cases "admitted l")
  case False
  with assms show ?thesis by (simp add: process_lead_calls admitted_def)
next
  case True
  obtain r t where rt: "encrypt_lead_at lib env (encryption self) (tick (fst wc)) l = (r, t)"
    by (cases "encrypt_lead_at lib env (encryption self) (tick (fst wc)) l")
  show ?thesis
  proof (cases r)
    case (Inl ex)
    with assms True rt show ?thesis by (auto simp: process_lead_calls admitted_def)
  next
    case (Inr e)
    with rt have "fst (encrypt_lead_at lib env (encryption self) (tick (fst wc)) l) = Inr e" by simp
    then have "admitted e" using True by (simp add: admitted_encrypted)
    with assms True rt Inr show ?thesis
      by (auto simp: process_lead_calls admitted_def split: option.splits)
  qed
qed

lemma round_rejected_subjects:
  "map subject (events_of (lit ''lead_rejected'') (audit (fst (process_lead lib env self wc l))))
     = map subject (events_of (lit ''lead_rejected'') (audit (fst wc)))
       @ (if \<not> admitted l then [lead_id l] else [])"
  by (simp add: process_lead_audit events_of_def admitted_def mk_event_def
        split: prod.splits sum.splits option.splits)

lemma round_rejected_details:
  "ev \<in> set (audit (fst (process_lead lib env self wc l))) \<Longrightarrow>
   ev \<in> set (audit (fst wc)) \<or> event_type ev \<noteq> lit ''lead_rejected''
     \<or> details ev = [(''reason'', JStr (lit ''missing_consent''))]"
  by (auto simp: process_lead_audit mk_event_def split: if_splits prod.splits sum.splits option.splits)

lemma try_body_rejects:
  "fst (try_body lib env self l v) = Inr False \<longleftrightarrow> \<not> (consent_given l \<and> tcpa_compliant l)"
  by (auto simp: try_body_def split: prod.splits sum.splits)

text \<open>
  Claim C1. The \<^verbatim>\<open>try\<close> block rejects a lead exactly when \<open>consent_given\<close>
  and \<open>tcpa_compliant\<close> are not both true. The round of a rejected lead leaves the
  count, the record of calls, the table and the bucket as they were and adds the one
  audit entry \<^verbatim>\<open>lead_rejected\<close> with the detail
  \<^verbatim>\<open>{'reason': 'missing_consent'}\<close>. Over a whole batch: the leads passed to
  \<^verbatim>\<open>_encrypt_lead\<close> during the call are the admitted leads of the batch, in
  order; every lead that any of \<^verbatim>\<open>_encrypt_lead\<close>, \<^verbatim>\<open>_store_lead\<close> and
  \<^verbatim>\<open>_archive_to_s3\<close> receives during the call has both flags true, so a rejected
  record reaches none of them; the \<^verbatim>\<open>lead_rejected\<close> entries added to the audit
  trail are one per rejected lead, in order, under its \<open>lead_id\<close>; and each has the
  detail \<^verbatim>\<open>{'reason': 'missing_consent'}\<close>.
\<close>

theorem consent_gate:
  "(fst (try_body lib env self l v) = Inr False \<longleftrightarrow> \<not> (consent_given l \<and> tcpa_compliant l)) \<and>
   (admitted l \<longleftrightarrow> consent_given l \<and> tcpa_compliant l) \<and>
   (\<not> (consent_given r \<and> tcpa_compliant r) \<longrightarrow>
      snd (process_lead lib env self (u, k) r) = k \<and>
      calls (fst (process_lead lib env self (u, k) r)) = calls u \<and>
      db (fst (process_lead lib env self (u, k) r)) = db u \<and>
      s3 (fst (process_lead lib env self (u, k) r)) = s3 u \<and>
      audit (fst (process_lead lib env self (u, k) r))
        = audit u @ [mk_event env (tick u) (lit ''lead_rejected'') (lead_id r)
                       [(''reason'', JStr (lit ''missing_consent''))]]) \<and>
   (process_leads lib env self leads w = (n, w') \<longrightarrow>
      map call_arg (filter is_encrypt_call (calls w'))
        = map call_arg (filter is_encrypt_call (calls w)) @ filter admitted leads \<and>
      (\<forall>c\<in>set (calls w'). c \<in> set (calls w) \<or> admitted (call_arg c)) \<and>
      map subject (events_of (lit ''lead_rejected'') (audit w'))
        = map subject (events_of (lit ''lead_rejected'') (audit w))
          @ map lead_id (filter (\<lambda>l. \<not> admitted l) leads) \<and>
      (\<forall>ev\<in>set (audit w'). ev \<in> set (audit w) \<or> event_type ev \<noteq> lit ''lead_rejected''
          \<or> details ev = [(''reason'', JStr (lit ''missing_consent''))]))"
proof (intro conjI impI)
  show "fst (try_body lib env self l v) = Inr False \<longleftrightarrow> \<not> (consent_given l \<and> tcpa_compliant l)"
    by (rule try_body_rejects)
  show "admitted l \<longleftrightarrow> consent_given l \<and> tcpa_compliant l"
    by (simp add: admitted_def)
next
  assume "\<not> (consent_given r \<and> tcpa_compliant r)"
  then have rej: "process_lead lib env self (u, k) r
      = (log_event env (lit ''lead_rejected'') (lead_id r) [(''reason'', JStr (lit ''missing_consent''))]
           (logger WARNING (lit ''Skipping lead '' @ lead_id r @ lit '': missing consent'') u), k)"
    by (auto simp: process_lead_def try_body_def)
  show "snd (process_lead lib env self (u, k) r) = k"
    and "calls (fst (process_lead lib env self (u, k) r)) = calls u"
    and "db (fst (process_lead lib env self (u, k) r)) = db u"
    and "s3 (fst (process_lead lib env self (u, k) r)) = s3 u"
    and "audit (fst (process_lead lib env self (u, k) r))
        = audit u @ [mk_event env (tick u) (lit ''lead_rejected'') (lead_id r)
                       [(''reason'', JStr (lit ''missing_consent''))]]"
    unfolding rej by simp_all
next
  assume run: "process_leads lib env self leads w = (n, w')"
  let ?w0 = "logger INFO (lit ''Processing '' @ str_nat (length leads) @ lit '' leads'') w"
  let ?r = "foldl (process_lead lib env self) (?w0, 0) leads"
  from run have c: "calls w' = calls (fst ?r)" and a: "audit w' = audit (fst ?r)"
    by (auto simp: process_leads_eq)
  have "map call_arg (filter is_encrypt_call (calls (fst ?r)))
      = map call_arg (filter is_encrypt_call (calls (fst (?w0, 0::int))))
        @ concat (map (\<lambda>l. if admitted l then [l] else []) leads)"
    by (rule foldl_grows [where g = "\<lambda>wc. map call_arg (filter is_encrypt_call (calls (fst wc)))"])
       (rule round_encrypt_args)
  then show "map call_arg (filter is_encrypt_call (calls w'))
        = map call_arg (filter is_encrypt_call (calls w)) @ filter admitted leads"
    using concat_if_filter [of admitted "\<lambda>l. l" leads] by (simp add: c)
  have "\<forall>c\<in>set (calls (fst ?r)). c \<in> set (calls w) \<or> admitted (call_arg c)"
    by (rule foldl_invariant [where I = "\<lambda>wc. \<forall>c\<in>set (calls (fst wc)). c \<in> set (calls w) \<or> admitted (call_arg c)"])
       (auto dest: round_calls_admitted)
  then show "\<forall>c\<in>set (calls w'). c \<in> set (calls w) \<or> admitted (call_arg c)"
    by (simp add: c)
  have "map subject (events_of (lit ''lead_rejected'') (audit (fst ?r)))
      = map subject (events_of (lit ''lead_rejected'') (audit (fst (?w0, 0::int))))
        @ concat (map (\<lambda>l. if \<not> admitted l then [lead_id l] else []) leads)"
    by (rule foldl_grows [where g = "\<lambda>wc. map subject (events_of (lit ''lead_rejected'') (audit (fst wc)))"])
       (rule round_rejected_subjects)
  then show "map subject (events_of (lit ''lead_rejected'') (audit w'))
        = map subject (events_of (lit ''lead_rejected'') (audit w))
          @ map lead_id (filter (\<lambda>l. \<not> admitted l) leads)"
    using concat_if_filter [of "\<lambda>l. \<not> admitted l" lead_id leads] by (simp add: a)
  have "\<forall>ev\<in>set (audit (fst ?r)). ev \<in> set (audit w) \<or> event_type ev \<noteq> lit ''lead_rejected''
          \<or> details ev = [(''reason'', JStr (lit ''missing_consent''))]"
    by (rule foldl_invariant [where I = "\<lambda>wc. \<forall>ev\<in>set (audit (fst wc)). ev \<in> set (audit w)
          \<or> event_type ev \<noteq> lit ''lead_rejected'' \<or> details ev = [(''reason'', JStr (lit ''missing_consent''))]"])
       (auto dest: round_rejected_details)
  then show "\<forall>ev\<in>set (audit w'). ev \<in> set (audit w) \<or> event_type ev \<noteq> lit ''lead_rejected''
          \<or> details ev = [(''reason'', JStr (lit ''missing_consent''))]"
    by (simp add: a)
qed

theorem consent_gate_witness:
  "process_leads demo_fernet demo_env demo_importer
       [demo_lead ''L1'' True True, demo_lead ''L4'' True False, demo_lead ''L5'' False True] world0
     = (fst (process_leads demo_fernet demo_env demo_importer
          [demo_lead ''L1'' True True, demo_lead ''L4'' True False, demo_lead ''L5'' False True] world0),
        snd (process_leads demo_fernet demo_env demo_importer
          [demo_lead ''L1'' True True, demo_lead ''L4'' True False, demo_lead ''L5'' False True] world0)) \<and>
   map call_arg (filter is_encrypt_call (calls (snd (process_leads demo_fernet demo_env demo_importer
       [demo_lead ''L1'' True True, demo_lead ''L4'' True False, demo_lead ''L5'' False True] world0))))
     = [demo_lead ''L1'' True True] \<and>
   map subject (events_of (lit ''lead_rejected'') (audit (snd (process_leads demo_fernet demo_env demo_importer
       [demo_lead ''L1'' True True, demo_lead ''L4'' True False, demo_lead ''L5'' False True] world0))))
     = [lit ''L4'', lit ''L5''] \<and>
   \<not> (consent_given (demo_lead ''L4'' True False) \<and> tcpa_compliant (demo_lead ''L4'' True False)) \<and>
   calls (fst (process_lead demo_fernet demo_env demo_importer (world0, 0) (demo_lead ''L4'' True False)))
     = [] \<and>
   db (fst (process_lead demo_fernet demo_env demo_importer (world0, 0) (demo_lead ''L4'' True False)))
     = [] \<and>
   map event_type (audit (fst (process_lead demo_fernet demo_env demo_importer (world0, 0)
       (demo_lead ''L4'' True False)))) = [lit ''lead_rejected'']"
proof -
  let ?batch = "[demo_lead ''L1'' True True, demo_lead ''L4'' True False, demo_lead ''L5'' False True]"
  have no: "\<not> (consent_given (demo_lead ''L4'' True False) \<and> tcpa_compliant (demo_lead ''L4'' True False))"
    by (simp add: demo_lead_def)
  let ?res = "process_leads demo_fernet demo_env demo_importer ?batch world0"
  have h: "?res = (fst ?res, snd ?res)" by simp
  have adm: "filter admitted ?batch = [demo_lead ''L1'' True True]"
    by (simp add: admitted_def demo_lead_def)
  have rej: "map lead_id (filter (\<lambda>l. \<not> admitted l) ?batch) = [lit ''L4'', lit ''L5'']"
    by (simp add: admitted_def demo_lead_def)
  from consent_gate [of demo_fernet demo_env demo_importer "demo_lead ''L1'' True True" world0
      "demo_lead ''L4'' True False" world0 0 ?batch world0 "fst ?res" "snd ?res"] h adm rej no
  show ?thesis by (simp add: world0_def events_of_def mk_event_def)
qed

subsection \<open>The count returned by \<^verbatim>\<open>process_leads\<close>\<close>

lemma round_count_cases:
  "snd (process_lead lib env self wc l) = snd wc \<or>
   (admitted l \<and> snd (process_lead lib env self wc l) = snd wc + 1)"
  by (simp add: process_lead_count admitted_def split: prod.splits sum.splits option.splits)

lemma round_imported:
  "int (length (events_of (lit ''lead_imported'') (audit (fst (process_lead lib env self wc l)))))
     - snd (process_lead lib env self wc l)
   = int (length (events_of (lit ''lead_imported'') (audit (fst wc)))) - snd wc"
  by (simp add: process_lead_audit process_lead_count events_of_def mk_event_def
           split: prod.splits sum.splits option.splits)

lemma round_store_done:
  "int (length (filter is_store_done (calls (fst (process_lead lib env self wc l)))))
     - snd (process_lead lib env self wc l)
   = int (length (filter is_store_done (calls (fst wc)))) - snd wc"
  by (simp add: process_lead_calls process_lead_count split: prod.splits sum.splits option.splits)

lemma loop_count_bounds:
  "snd wc \<le> snd (foldl (process_lead lib env self) wc leads) \<and>
   snd (foldl (process_lead lib env self) wc leads) \<le> snd wc + int (length (filter admitted leads))"
proof (induction leads arbitrary: wc)
  case Nil
  show ?case by simp
next
  case (Cons l leads)
  from Cons.IH [of "process_lead lib env self wc l"] round_count_cases [of lib env self wc l]
  show ?case by auto
qed

text \<open>
  Claim C10. The number \<^verbatim>\<open>process_leads\<close> returns is between 0 and the length of
  the batch (and at most the number of admitted leads); it is the number of
  \<^verbatim>\<open>_store_lead\<close> calls that returned during the call, and the number of
  \<^verbatim>\<open>lead_imported\<close> entries added to the audit trail. On the empty batch it is 0
  and the audit trail is unchanged.
\<close>

theorem processed_count:
  "process_leads lib env self leads w = (n, w') \<longrightarrow>
     0 \<le> n \<and> n \<le> int (length leads) \<and>
     n \<le> int (length (filter admitted leads)) \<and>
     int (length (filter is_store_done (calls w'))) = int (length (filter is_store_done (calls w))) + n \<and>
     int (length (events_of (lit ''lead_imported'') (audit w')))
       = int (length (events_of (lit ''lead_imported'') (audit w))) + n \<and>
     (leads = [] \<longrightarrow> n = 0 \<and> audit w' = audit w)"
proof
  assume run: "process_leads lib env self leads w = (n, w')"
  let ?w0 = "logger INFO (lit ''Processing '' @ str_nat (length leads) @ lit '' leads'') w"
  let ?r = "foldl (process_lead lib env self) (?w0, 0) leads"
  from run have n: "n = snd ?r" and c: "calls w' = calls (fst ?r)" and a: "audit w' = audit (fst ?r)"
    by (auto simp: process_leads_eq)
  from loop_count_bounds [of "(?w0, 0)" lib env self leads]
  have b: "0 \<le> n" "n \<le> int (length (filter admitted leads))" by (simp_all add: n)
  have "length (filter admitted leads) \<le> length leads" by simp
  with b have b2: "n \<le> int (length leads)" by linarith
  have "int (length (filter is_store_done (calls (fst ?r)))) - snd ?r
      = int (length (filter is_store_done (calls w))) - 0"
    by (rule foldl_invariant [where I = "\<lambda>wc. int (length (filter is_store_done (calls (fst wc)))) - snd wc
          = int (length (filter is_store_done (calls w))) - 0"])
       (simp_all add: round_store_done)
  then have s: "int (length (filter is_store_done (calls w'))) = int (length (filter is_store_done (calls w))) + n"
    by (simp add: n c)
  have "int (length (events_of (lit ''lead_imported'') (audit (fst ?r)))) - snd ?r
      = int (length (events_of (lit ''lead_imported'') (audit w))) - 0"
    by (rule foldl_invariant [where I = "\<lambda>wc. int (length (events_of (lit ''lead_imported'') (audit (fst wc)))) - snd wc
          = int (length (events_of (lit ''lead_imported'') (audit w))) - 0"])
       (simp_all add: round_imported)
  then have i: "int (length (events_of (lit ''lead_imported'') (audit w')))
       = int (length (events_of (lit ''lead_imported'') (audit w))) + n"
    by (simp add: n a)
  have e: "leads = [] \<longrightarrow> n = 0 \<and> audit w' = audit w"
    by (simp add: n a)
  from b b2 s i e
  show "0 \<le> n \<and> n \<le> int (length leads) \<and>
     n \<le> int (length (filter admitted leads)) \<and>
     int (length (filter is_store_done (calls w'))) = int (length (filter is_store_done (calls w))) + n \<and>
     int (length (events_of (lit ''lead_imported'') (audit w')))
       = int (length (events_of (lit ''lead_imported'') (audit w))) + n \<and>
     (leads = [] \<longrightarrow> n = 0 \<and> audit w' = audit w)"
    by blast
qed

theorem processed_count_witness:
  "process_leads demo_fernet demo_env demo_importer
       [demo_lead ''L1'' True True, demo_lead ''L2'' True True, demo_lead ''L3'' True True,
        demo_lead ''L4'' True False, demo_lead_surrogate ''L6''] world0
     = (2, snd (process_leads demo_fernet demo_env demo_importer
       [demo_lead ''L1'' True True, demo_lead ''L2'' True True, demo_lead ''L3'' True True,
        demo_lead ''L4'' True False, demo_lead_surrogate ''L6''] world0)) \<and>
   (0::int) \<le> 2 \<and> (2::int) \<le> int (length [demo_lead ''L1'' True True, demo_lead ''L2'' True True,
        demo_lead ''L3'' True True, demo_lead ''L4'' True False, demo_lead_surrogate ''L6'']) \<and>
   length (events_of (lit ''lead_imported'') (audit (snd (process_leads demo_fernet demo_env demo_importer
       [demo_lead ''L1'' True True, demo_lead ''L2'' True True, demo_lead ''L3'' True True,
        demo_lead ''L4'' True False, demo_lead_surrogate ''L6''] world0)))) = 2 \<and>
   process_leads demo_fernet demo_env demo_importer [] world0
     = (0, snd (process_leads demo_fernet demo_env demo_importer [] world0)) \<and>
   audit (snd (process_leads demo_fernet demo_env demo_importer [] world0)) = []"
proof -
  let ?batch = "[demo_lead ''L1'' True True, demo_lead ''L2'' True True, demo_lead ''L3'' True True,
        demo_lead ''L4'' True False, demo_lead_surrogate ''L6'']"
  let ?res = "process_leads demo_fernet demo_env demo_importer ?batch world0"
  let ?nil = "process_leads demo_fernet demo_env demo_importer [] world0"
  have fl: "consent_given (demo_lead_surrogate ''L6'')" "tcpa_compliant (demo_lead_surrogate ''L6'')"
    by (simp_all add: demo_lead_surrogate_def demo_lead_def)
  have "fst ?res = 2"
    by (simp add: process_leads_eq process_lead_count demo_encrypt_lead_at
          demo_encrypt_lead_at_surrogate fl)
       (simp add: demo_env_def demo_lead_def)
  then have h: "?res = (2, snd ?res)" by (simp add: prod_eq_iff)
  have "fst ?nil = 0" by (simp add: process_leads_eq)
  then have h0: "?nil = (0, snd ?nil)" by (simp add: prod_eq_iff)
  from processed_count [of demo_fernet demo_env demo_importer ?batch world0 2 "snd ?res"]
       processed_count [of demo_fernet demo_env demo_importer "[]" world0 0 "snd ?nil"] h h0
  show ?thesis by (simp add: world0_def events_of_def)
qed

subsection \<open>An exception inside the \<^verbatim>\<open>try\<close>\<close>

lemma foldl_same_growth:
  assumes "\<And>acc x. \<exists>d. g (f acc x) = g acc @ d \<and> h (f acc x) = h acc @ d"
  shows "\<exists>ds. g (foldl f acc xs) = g acc @ ds \<and> h (foldl f acc xs) = h acc @ ds"
proof (induction xs arbitrary: acc)
  case Nil
  show ?case by simp
next
  case (Cons x xs)
  from assms [of acc x] obtain d where d: "g (f acc x) = g acc @ d" "h (f acc x) = h acc @ d"
    by blast
  from Cons.IH [of "f acc x"] obtain ds where
    ds: "g (foldl f (f acc x) xs) = g (f acc x) @ ds" "h (foldl f (f acc x) xs) = h (f acc x) @ ds"
    by blast
  from d ds have "g (foldl f acc (x # xs)) = g acc @ (d @ ds) \<and> h (foldl f acc (x # xs)) = h acc @ (d @ ds)"
    by simp
  then show ?case by blast
qed

lemma try_body_raises:
  "(\<exists>v2. try_body lib env self l v = (Inl ex, v2)) \<longleftrightarrow>
   consent_given l \<and> tcpa_compliant l \<and>
   (fst (encrypt_lead lib env self l v) = Inl ex \<or>
    (\<exists>e. fst (encrypt_lead lib env self l v) = Inr e \<and>
         fst (store_lead env e (snd (encrypt_lead lib env self l v))) = Inl ex))"
proof -
  obtain r v1 where enc: "encrypt_lead lib env self l v = (r, v1)"
    by (cases "encrypt_lead lib env self l v")
  show ?thesis
  proof (cases "consent_given l \<and> tcpa_compliant l")
    case False
    then show ?thesis by (auto simp: try_body_def)
  next
    case True
    show ?thesis
    proof (cases r)
      case (Inl e0)
      with enc True show ?thesis
        by (simp add: try_body_def del: encrypt_lead_simps store_lead_simps)
    next
      case (Inr e)
      obtain r2 v2 where st: "store_lead env e v1 = (r2, v2)"
        by (cases "store_lead env e v1")
      with enc True Inr show ?thesis
        by (cases r2) (simp_all add: try_body_def del: encrypt_lead_simps store_lead_simps)
    qed
  qed
qed

lemma try_body_fst:
  "fst (try_body lib env self l v) =
     (if \<not> consent_given l \<or> \<not> tcpa_compliant l then Inr False
      else (case encrypt_lead_at lib env (encryption self) (tick v) l of
              (Inl ex, t) \<Rightarrow> Inl ex
            | (Inr e, t) \<Rightarrow> (case db_fault env t e of Some ex \<Rightarrow> Inl ex | None \<Rightarrow> Inr True)))"
  by (simp add: try_body_def store_lead_def encrypt_lead_def Let_def
           split: prod.splits sum.splits option.splits)

lemma try_body_raised_world:
  assumes "try_body lib env self l v = (Inl ex, v2)"
  shows "db v2 = db v \<and> s3 v2 = s3 v \<and> audit v2 = audit v"
proof -
  from assms have adm: "consent_given l \<and> tcpa_compliant l"
    by (auto simp: try_body_def split: if_splits)
  obtain r v1 where enc: "encrypt_lead lib env self l v = (r, v1)"
    by (cases "encrypt_lead lib env self l v")
  then have v1: "v1 = snd (encrypt_lead lib env self l v)" by simp
  show ?thesis
  proof (cases r)
    case (Inl e)
    with assms adm enc have "v2 = v1" by (simp add: try_body_def)
    with v1 show ?thesis by simp
  next
    case (Inr e)
    with assms adm enc have st: "store_lead env e v1 = (Inl ex, v2)"
      by (auto simp: try_body_def split: prod.splits sum.splits)
    then have "v2 = snd (store_lead env e v1)" and "fst (store_lead env e v1) = Inl ex" by simp_all
    with v1 show ?thesis by (auto split: option.splits)
  qed
qed

lemma round_failures:
  "\<exists>d. reported_failures (audit (fst (process_lead lib env self wc l)))
          = reported_failures (audit (fst wc)) @ d \<and>
        concat (map failure_report (calls (fst (process_lead lib env self wc l))))
          = concat (map failure_report (calls (fst wc))) @ d"
proof (cases "\<not> consent_given l \<or> \<not> tcpa_compliant l")
  case True
  then show ?thesis
    by (simp add: process_lead_audit process_lead_calls reported_failures_def events_of_def mk_event_def)
next
  case False
  obtain r t where rt: "encrypt_lead_at lib env (encryption self) (tick (fst wc)) l = (r, t)"
    by (cases "encrypt_lead_at lib env (encryption self) (tick (fst wc)) l")
  show ?thesis
  proof (cases r)
    case (Inl ex)
    with False rt show ?thesis
      by (simp add: process_lead_audit process_lead_calls reported_failures_def events_of_def mk_event_def)
  next
    case (Inr e)
    with rt have "fst (encrypt_lead_at lib env (encryption self) (tick (fst wc)) l) = Inr e" by simp
    then have "lead_id e = lead_id l" by (rule lead_id_encrypted)
    with False rt Inr show ?thesis
      by (simp add: process_lead_audit process_lead_calls reported_failures_def events_of_def
            mk_event_def split: option.splits)
  qed
qed

lemma round_outcome:
  "snd (process_lead lib env self wc l)
     + int (length (events_of (lit ''lead_import_failed'') (audit (fst (process_lead lib env self wc l)))))
   = snd wc + int (length (events_of (lit ''lead_import_failed'') (audit (fst wc))))
     + (if admitted l then 1 else 0)"
  by (simp add: process_lead_audit process_lead_count events_of_def mk_event_def admitted_def
           split: prod.splits sum.splits option.splits)

lemma loop_outcome:
  "snd (foldl (process_lead lib env self) wc leads)
     + int (length (events_of (lit ''lead_import_failed'')
          (audit (fst (foldl (process_lead lib env self) wc leads)))))
     + int (length (filter (\<lambda>l. \<not> admitted l) leads))
   = snd wc + int (length (events_of (lit ''lead_import_failed'') (audit (fst wc)))) + int (length leads)"
proof (induction leads arbitrary: wc)
  case Nil
  show ?case by simp
next
  case (Cons l leads)
  from Cons.IH [of "process_lead lib env self wc l"] round_outcome [of lib env self wc l]
  show ?case by (simp split: if_splits)
qed

lemma loop_audit_length:
  "length (audit (fst (foldl (process_lead lib env self) wc leads)))
     = length (audit (fst wc)) + length leads"
  by (induction leads arbitrary: wc) (simp_all add: process_lead_audit)

text \<open>
  Claim C7, as stated, fails in its last part: \<^verbatim>\<open>process_leads\<close> returns the count
  alone. A batch of one lead whose store raises, and a batch of that lead and a rejected
  one, both return 0: the value returned does not tell the size of the batch.
\<close>

theorem returned_value_omits_total:
  "fst (process_leads demo_fernet demo_env demo_importer [demo_lead ''L3'' True True] world0) = 0 \<and>
   fst (process_leads demo_fernet demo_env demo_importer
          [demo_lead ''L3'' True True, demo_lead ''L4'' True False] world0) = 0 \<and>
   length [demo_lead ''L3'' True True] = 1 \<and>
   length [demo_lead ''L3'' True True, demo_lead ''L4'' True False] = 2"
  by (simp add: process_leads_eq process_lead_count demo_encrypt_lead_at)
     (simp add: demo_env_def demo_lead_def)

text \<open>
  Claim C7, amended: the value returned is the count; the size of the batch is reported
  with it in the last log line. An exception leaves the \<^verbatim>\<open>try\<close> block exactly when
  the lead is admitted and \<^verbatim>\<open>_encrypt_lead\<close> raises it, or \<^verbatim>\<open>_encrypt_lead\<close>
  returns and \<^verbatim>\<open>_store_lead\<close> raises it. A round in which an exception leaves the
  \<^verbatim>\<open>try\<close> block, whichever call raised it, leaves the count, the table and the
  bucket as they were, adds the one audit entry \<^verbatim>\<open>lead_import_failed\<close> with the text
  of the exception, and the loop goes on with the rest of the batch. Over a whole batch,
  whatever the leads hold and whatever the database and S3 do: the audit trail grows by
  one entry per lead; the \<^verbatim>\<open>lead_import_failed\<close> entries added are, in order, those
  of the calls of \<^verbatim>\<open>_encrypt_lead\<close> and \<^verbatim>\<open>_store_lead\<close> that raised, each with
  the lead's id and the text of its exception; every lead is counted, reported failed or
  rejected; and the last log line reports the count and the size of the batch.
\<close>

theorem failure_isolated:
  "((\<exists>u2. try_body lib env self a u = (Inl exa, u2)) \<longleftrightarrow>
      consent_given a \<and> tcpa_compliant a \<and>
      (fst (encrypt_lead lib env self a u) = Inl exa \<or>
       (\<exists>e. fst (encrypt_lead lib env self a u) = Inr e \<and>
            fst (store_lead env e (snd (encrypt_lead lib env self a u))) = Inl exa))) \<and>
   (try_body lib env self l v = (Inl ex, v2) \<longrightarrow>
      snd (process_lead lib env self (v, c) l) = c \<and>
      audit (fst (process_lead lib env self (v, c) l))
        = audit v @ [mk_event env (tick v2) (lit ''lead_import_failed'') (lead_id l)
                       [(''error'', JStr (str_exn ex))]] \<and>
      db (fst (process_lead lib env self (v, c) l)) = db v \<and>
      s3 (fst (process_lead lib env self (v, c) l)) = s3 v \<and>
      foldl (process_lead lib env self) (v, c) (l # rest)
        = foldl (process_lead lib env self) (fst (process_lead lib env self (v, c) l), c) rest) \<and>
   (process_leads lib env self leads w = (n, w') \<longrightarrow>
      length (audit w') = length (audit w) + length leads \<and>
      (\<exists>ds. reported_failures (audit w') = reported_failures (audit w) @ ds \<and>
            concat (map failure_report (calls w')) = concat (map failure_report (calls w)) @ ds) \<and>
      n + int (length (events_of (lit ''lead_import_failed'') (audit w')))
        + int (length (filter (\<lambda>l. \<not> admitted l) leads))
        = int (length (events_of (lit ''lead_import_failed'') (audit w))) + int (length leads) \<and>
      last (log_lines w') = (INFO, lit ''Successfully processed '' @ str_int n @ lit ''/''
                                     @ str_nat (length leads) @ lit '' leads''))"
proof (intro conjI impI)
  show "(\<exists>u2. try_body lib env self a u = (Inl exa, u2)) \<longleftrightarrow>
      consent_given a \<and> tcpa_compliant a \<and>
      (fst (encrypt_lead lib env self a u) = Inl exa \<or>
       (\<exists>e. fst (encrypt_lead lib env self a u) = Inr e \<and>
            fst (store_lead env e (snd (encrypt_lead lib env self a u))) = Inl exa))"
    by (rule try_body_raises)
next
  assume tb: "try_body lib env self l v = (Inl ex, v2)"
  from try_body_raised_world [OF tb]
  have v2: "db v2 = db v" "s3 v2 = s3 v" "audit v2 = audit v" by simp_all
  from tb show c: "snd (process_lead lib env self (v, c) l) = c"
    by (simp add: process_lead_def)
  from tb v2 show "audit (fst (process_lead lib env self (v, c) l))
        = audit v @ [mk_event env (tick v2) (lit ''lead_import_failed'') (lead_id l)
                       [(''error'', JStr (str_exn ex))]]"
    by (simp add: process_lead_def)
  from tb v2 show "db (fst (process_lead lib env self (v, c) l)) = db v"
    by (simp add: process_lead_def)
  from tb v2 show "s3 (fst (process_lead lib env self (v, c) l)) = s3 v"
    by (simp add: process_lead_def)
  from c have "process_lead lib env self (v, c) l = (fst (process_lead lib env self (v, c) l), c)"
    by (simp add: prod_eq_iff)
  then show "foldl (process_lead lib env self) (v, c) (l # rest)
        = foldl (process_lead lib env self) (fst (process_lead lib env self (v, c) l), c) rest"
    by simp
next
  assume run: "process_leads lib env self leads w = (n, w')"
  let ?w0 = "logger INFO (lit ''Processing '' @ str_nat (length leads) @ lit '' leads'') w"
  let ?r = "foldl (process_lead lib env self) (?w0, 0) leads"
  from run have n: "n = snd ?r" and c: "calls w' = calls (fst ?r)" and a: "audit w' = audit (fst ?r)"
    and w': "w' = logger INFO (lit ''Successfully processed '' @ str_int n @ lit ''/''
                                     @ str_nat (length leads) @ lit '' leads'') (fst ?r)"
    by (auto simp: process_leads_eq)
  from loop_audit_length [of lib env self "(?w0, 0)" leads]
  show "length (audit w') = length (audit w) + length leads"
    by (simp add: a)
  show "\<exists>ds. reported_failures (audit w') = reported_failures (audit w) @ ds \<and>
            concat (map failure_report (calls w')) = concat (map failure_report (calls w)) @ ds"
    using foldl_same_growth [where g = "\<lambda>wc. reported_failures (audit (fst wc))"
        and h = "\<lambda>wc. concat (map failure_report (calls (fst wc)))"
        and f = "process_lead lib env self" and acc = "(?w0, 0)" and xs = leads, OF round_failures]
    by (simp add: a c)
  from loop_outcome [of lib env self "(?w0, 0)" leads]
  show "n + int (length (events_of (lit ''lead_import_failed'') (audit w')))
        + int (length (filter (\<lambda>l. \<not> admitted l) leads))
        = int (length (events_of (lit ''lead_import_failed'') (audit w))) + int (length leads)"
    by (simp add: n a)
  show "last (log_lines w') = (INFO, lit ''Successfully processed '' @ str_int n @ lit ''/''
                                     @ str_nat (length leads) @ lit '' leads'')"
    by (subst w') (simp add: logger_def)
qed

theorem failure_isolated_witness:
  "try_body demo_fernet demo_env demo_importer (demo_lead_surrogate ''L6'') world0
     = (Inl (Raised ''UnicodeEncodeError'' (lit ''surrogates not allowed'')),
        snd (try_body demo_fernet demo_env demo_importer (demo_lead_surrogate ''L6'') world0)) \<and>
   snd (process_lead demo_fernet demo_env demo_importer (world0, 0) (demo_lead_surrogate ''L6'')) = 0 \<and>
   db (fst (process_lead demo_fernet demo_env demo_importer (world0, 0) (demo_lead_surrogate ''L6''))) = [] \<and>
   map details (audit (fst (process_lead demo_fernet demo_env demo_importer (world0, 0)
       (demo_lead_surrogate ''L6'')))) = [[(''error'', JStr (lit ''surrogates not allowed''))]] \<and>
   try_body demo_fernet demo_env demo_importer (demo_lead ''L3'' True True) world0
     = (Inl (Raised ''OperationalError'' (lit ''connection refused'')),
        snd (try_body demo_fernet demo_env demo_importer (demo_lead ''L3'' True True) world0)) \<and>
   map details (audit (fst (process_lead demo_fernet demo_env demo_importer (world0, 0)
       (demo_lead ''L3'' True True)))) = [[(''error'', JStr (lit ''connection refused''))]] \<and>
   process_leads demo_fernet demo_env demo_importer
       [demo_lead ''L3'' True True, demo_lead_surrogate ''L6'', demo_lead ''L1'' True True] world0
     = (1, snd (process_leads demo_fernet demo_env demo_importer
       [demo_lead ''L3'' True True, demo_lead_surrogate ''L6'', demo_lead ''L1'' True True] world0)) \<and>
   length (audit (snd (process_leads demo_fernet demo_env demo_importer
       [demo_lead ''L3'' True True, demo_lead_surrogate ''L6'', demo_lead ''L1'' True True] world0))) = 3 \<and>
   length (events_of (lit ''lead_import_failed'') (audit (snd (process_leads demo_fernet demo_env
       demo_importer
       [demo_lead ''L3'' True True, demo_lead_surrogate ''L6'', demo_lead ''L1'' True True] world0)))) = 2"
proof -
  let ?s = "demo_lead_surrogate ''L6''"
  let ?l = "demo_lead ''L3'' True True"
  let ?xs = "Raised ''UnicodeEncodeError'' (lit ''surrogates not allowed'')"
  let ?xl = "Raised ''OperationalError'' (lit ''connection refused'')"
  let ?tbs = "try_body demo_fernet demo_env demo_importer ?s world0"
  let ?tbl = "try_body demo_fernet demo_env demo_importer ?l world0"
  let ?batch = "[?l, ?s, demo_lead ''L1'' True True]"
  let ?res = "process_leads demo_fernet demo_env demo_importer ?batch world0"
  have fl: "consent_given ?s" "tcpa_compliant ?s" "lead_id ?s = lit ''L6''"
    by (simp_all add: demo_lead_surrogate_def demo_lead_def)
  have adm: "consent_given ?l" "tcpa_compliant ?l" by (simp_all add: demo_lead_def)
  have "fst ?tbs = Inl ?xs"
    by (simp add: try_body_fst fl demo_encrypt_lead_at_surrogate)
  then have tbs: "?tbs = (Inl ?xs, snd ?tbs)" by (simp add: prod_eq_iff)
  have "fst ?tbl = Inl ?xl"
    by (simp add: try_body_fst adm demo_encrypt_lead_at)
       (simp add: demo_env_def demo_lead_def)
  then have tbl: "?tbl = (Inl ?xl, snd ?tbl)" by (simp add: prod_eq_iff)
  have "fst ?res = 1"
    by (simp add: process_leads_eq process_lead_count demo_encrypt_lead_at
          demo_encrypt_lead_at_surrogate fl)
       (simp add: demo_env_def demo_lead_def)
  then have run: "?res = (1, snd ?res)" by (simp add: prod_eq_iff)
  have batch: "filter (\<lambda>l. \<not> admitted l) ?batch = []"
    by (simp add: admitted_def demo_lead_def fl)
  from failure_isolated [of demo_fernet demo_env demo_importer ?s world0 ?xs ?s world0 ?xs
      "snd ?tbs" 0 "[]" ?batch world0 1 "snd ?res"]
    failure_isolated [of demo_fernet demo_env demo_importer ?l world0 ?xl ?l world0 ?xl
      "snd ?tbl" 0 "[]" "[]" world0 0 "snd (process_leads demo_fernet demo_env demo_importer [] world0)"]
    tbs tbl run batch fl
  show ?thesis by (simp add: world0_def events_of_def mk_event_def demo_lead_def)
qed

subsection \<open>An archive that fails\<close>

lemma encrypt_s3_fault:
  "encrypt lib (env\<lparr>s3_fault := g\<rparr>) self x t = encrypt lib env self x t"
  by (simp add: encrypt_def draw_def split: sum.splits)

lemma encrypt_fields_s3_fault:
  "encrypt_fields lib (env\<lparr>s3_fault := g\<rparr>) self fs l t = encrypt_fields lib env self fs l t"
  by (induction fs arbitrary: l t)
     (simp_all add: encrypt_s3_fault split: option.splits prod.splits sum.splits)

lemma encrypt_lead_at_s3_fault:
  "encrypt_lead_at lib (env\<lparr>s3_fault := g\<rparr>) self t l = encrypt_lead_at lib env self t l"
  by (simp add: encrypt_lead_at_def encrypt_fields_s3_fault)

lemma mk_event_s3_fault: "mk_event (env\<lparr>s3_fault := g\<rparr>) t ty lid det = mk_event env t ty lid det"
  by (simp add: mk_event_def get_ip_address_def)

lemma round_same_but_archive:
  assumes "same_but_archive a b"
  shows "same_but_archive (process_lead lib (env\<lparr>s3_fault := g\<rparr>) self a l) (process_lead lib env self b l)"
  using assms
  by (simp add: same_but_archive_def process_lead_db process_lead_audit process_lead_tick
        process_lead_count encrypt_lead_at_s3_fault mk_event_s3_fault
      split: prod.splits sum.splits option.splits)

lemma loop_same_but_archive:
  "same_but_archive a b \<Longrightarrow>
   same_but_archive (foldl (process_lead lib (env\<lparr>s3_fault := g\<rparr>) self) a leads)
                    (foldl (process_lead lib env self) b leads)"
  by (induction leads arbitrary: a b) (simp_all add: round_same_but_archive)

text \<open>
  Claim C8. A round in which \<^verbatim>\<open>_store_lead\<close> returns and the archive write
  fails still counts the lead, writes its \<^verbatim>\<open>lead_imported\<close> audit entry and
  updates the table; the bucket is unchanged and the failure shows only as one
  \<^verbatim>\<open>WARNING\<close> line of the logger. And over a whole batch the count returned, the
  audit trail and the table are the same whatever S3 does (\<open>g\<close> is any other
  behaviour of the archive).
\<close>

theorem archive_failure_not_fatal:
  "(consent_given l \<and> tcpa_compliant l \<and> encrypt_lead lib env self l v = (Inr e, v1) \<and>
    store_lead env e v1 = (Inr (), v2) \<and> s3_fault env (tick v2) e = Some ex \<longrightarrow>
      snd (process_lead lib env self (v, c) l) = c + 1 \<and>
      audit (fst (process_lead lib env self (v, c) l))
        = audit v @ [mk_event env (Suc (tick v2)) (lit ''lead_imported'') (lead_id l)
                       [(''source'', JStr (source l)), (''coverage_type'', jopt (coverage_type l)),
                        (''encrypted'', JBool True)]] \<and>
      db (fst (process_lead lib env self (v, c) l)) = upsert e (db v) \<and>
      s3 (fst (process_lead lib env self (v, c) l)) = s3 v \<and>
      log_lines (fst (process_lead lib env self (v, c) l))
        = log_lines v @ [(WARNING, lit ''S3 archiving failed for '' @ lead_id l @ lit '': '' @ str_exn ex),
                         (INFO, lit ''Audit: lead_imported for lead '' @ lead_id l)]) \<and>
   fst (process_leads lib (env\<lparr>s3_fault := g\<rparr>) self leads w) = fst (process_leads lib env self leads w) \<and>
   audit (snd (process_leads lib (env\<lparr>s3_fault := g\<rparr>) self leads w))
     = audit (snd (process_leads lib env self leads w)) \<and>
   db (snd (process_leads lib (env\<lparr>s3_fault := g\<rparr>) self leads w))
     = db (snd (process_leads lib env self leads w))"
proof (intro conjI impI)
  assume h: "consent_given l \<and> tcpa_compliant l \<and> encrypt_lead lib env self l v = (Inr e, v1) \<and>
    store_lead env e v1 = (Inr (), v2) \<and> s3_fault env (tick v2) e = Some ex"
  let ?det = "[(''source'', JStr (source l)), (''coverage_type'', jopt (coverage_type l)),
                        (''encrypted'', JBool True)]"
  from h have tb: "try_body lib env self l v
      = (Inr True, log_event env (lit ''lead_imported'') (lead_id l) ?det (archive_to_s3 env e v2))"
    by (simp add: try_body_def del: encrypt_lead_simps store_lead_simps)
  from h have e: "fst (encrypt_lead lib env self l v) = Inr e"
    and v1: "v1 = snd (encrypt_lead lib env self l v)"
    by (simp_all del: encrypt_lead_simps)
  from e have "fst (encrypt_lead_at lib env (encryption self) (tick v) l) = Inr e" by simp
  then have id: "lead_id e = lead_id l" by (rule lead_id_encrypted)
  from h have ok: "db_fault env (tick v1) e = None" and v2: "v2 = snd (store_lead env e v1)"
    by (auto simp: store_lead_def split: option.splits)
  from v2 ok v1 have p: "db v2 = upsert e (db v)" "s3 v2 = s3 v" "audit v2 = audit v"
    "log_lines v2 = log_lines v"
    by simp_all
  from tb show "snd (process_lead lib env self (v, c) l) = c + 1"
    by (simp add: process_lead_def)
  from tb p show "audit (fst (process_lead lib env self (v, c) l))
        = audit v @ [mk_event env (Suc (tick v2)) (lit ''lead_imported'') (lead_id l) ?det]"
    by (simp add: process_lead_def)
  from tb p show "db (fst (process_lead lib env self (v, c) l)) = upsert e (db v)"
    by (simp add: process_lead_def)
  from tb p h show "s3 (fst (process_lead lib env self (v, c) l)) = s3 v"
    by (simp add: process_lead_def)
  from tb p h id show "log_lines (fst (process_lead lib env self (v, c) l))
        = log_lines v @ [(WARNING, lit ''S3 archiving failed for '' @ lead_id l @ lit '': '' @ str_exn ex),
                         (INFO, lit ''Audit: lead_imported for lead '' @ lead_id l)]"
    by (simp add: process_lead_def log_event_def logger_def lit_def)
next
  let ?w0 = "logger INFO (lit ''Processing '' @ str_nat (length leads) @ lit '' leads'') w"
  have "same_but_archive (?w0, 0) (?w0, 0)" by (simp add: same_but_archive_def)
  from loop_same_but_archive [OF this, where lib = lib and env = env and g = g and self = self
      and leads = leads]
  have s: "same_but_archive (foldl (process_lead lib (env\<lparr>s3_fault := g\<rparr>) self) (?w0, 0) leads)
                    (foldl (process_lead lib env self) (?w0, 0) leads)" .
  then show "fst (process_leads lib (env\<lparr>s3_fault := g\<rparr>) self leads w) = fst (process_leads lib env self leads w)"
    by (simp add: process_leads_eq same_but_archive_def)
  from s show "audit (snd (process_leads lib (env\<lparr>s3_fault := g\<rparr>) self leads w))
     = audit (snd (process_leads lib env self leads w))"
    by (simp add: process_leads_eq same_but_archive_def)
  from s show "db (snd (process_leads lib (env\<lparr>s3_fault := g\<rparr>) self leads w))
     = db (snd (process_leads lib env self leads w))"
    by (simp add: process_leads_eq same_but_archive_def)
qed

theorem archive_failure_not_fatal_witness:
  "consent_given (demo_lead ''L2'' True True) \<and> tcpa_compliant (demo_lead ''L2'' True True) \<and>
   (\<exists>e. encrypt_lead demo_fernet demo_env demo_importer (demo_lead ''L2'' True True) world0
          = (Inr e, snd (encrypt_lead demo_fernet demo_env demo_importer (demo_lead ''L2'' True True) world0)) \<and>
        store_lead demo_env e
            (snd (encrypt_lead demo_fernet demo_env demo_importer (demo_lead ''L2'' True True) world0))
          = (Inr (), snd (store_lead demo_env e
               (snd (encrypt_lead demo_fernet demo_env demo_importer (demo_lead ''L2'' True True) world0)))) \<and>
        s3_fault demo_env
            (tick (snd (store_lead demo_env e
               (snd (encrypt_lead demo_fernet demo_env demo_importer (demo_lead ''L2'' True True) world0)))))
            e
          = Some (Raised ''ClientError'' (lit ''no bucket''))) \<and>
   snd (process_lead demo_fernet demo_env demo_importer (world0, 0) (demo_lead ''L2'' True True)) = 1 \<and>
   map event_type (audit (fst (process_lead demo_fernet demo_env demo_importer (world0, 0)
       (demo_lead ''L2'' True True)))) = [lit ''lead_imported''] \<and>
   log_lines (fst (process_lead demo_fernet demo_env demo_importer (world0, 0) (demo_lead ''L2'' True True)))
     = [(WARNING, lit ''S3 archiving failed for L2: no bucket''),
        (INFO, lit ''Audit: lead_imported for lead L2'')]"
proof -
  let ?l = "demo_lead ''L2'' True True"
  let ?enc = "encrypt_lead demo_fernet demo_env demo_importer ?l world0"
  let ?ex = "Raised ''ClientError'' (lit ''no bucket'')"
  have adm: "consent_given ?l" "tcpa_compliant ?l" by (simp_all add: demo_lead_def)
  have "\<exists>e. fst ?enc = Inr e \<and> lead_id e = lit ''L2''"
    by (simp add: demo_encrypt_lead_at) (simp add: demo_lead_def)
  then obtain e where e: "fst ?enc = Inr e" and id: "lead_id e = lit ''L2''"
    by blast
  let ?st = "store_lead demo_env e (snd ?enc)"
  from e have enc: "?enc = (Inr e, snd ?enc)" by (simp add: prod_eq_iff del: encrypt_lead_simps)
  from id have "fst ?st = Inr ()" by (simp add: demo_env_def)
  then have st: "?st = (Inr (), snd ?st)" by (simp add: prod_eq_iff del: store_lead_simps)
  from id have s3f: "s3_fault demo_env (tick (snd ?st)) e = Some ?ex"
    by (simp add: demo_env_def)
  from archive_failure_not_fatal [of ?l demo_fernet demo_env demo_importer world0 e "snd ?enc"
      "snd ?st" ?ex 0 "\<lambda>t l. None" "[]" world0] adm st enc s3f
  have r: "snd (process_lead demo_fernet demo_env demo_importer (world0, 0) ?l) = 1"
    "map event_type (audit (fst (process_lead demo_fernet demo_env demo_importer (world0, 0) ?l)))
       = [lit ''lead_imported'']"
    "log_lines (fst (process_lead demo_fernet demo_env demo_importer (world0, 0) ?l))
     = [(WARNING, lit ''S3 archiving failed for L2: no bucket''),
        (INFO, lit ''Audit: lead_imported for lead L2'')]"
    by (simp_all add: world0_def mk_event_def demo_lead_def lit_def)
  from adm enc st s3f r show ?thesis by (simp del: encrypt_lead_simps store_lead_simps) blast
qed

subsection \<open>Timestamps of the dataclass\<close>

text \<open>
  Claim C9. The defaults of \<^verbatim>\<open>created_at\<close> and \<^verbatim>\<open>imported_at\<close> are the two
  clock readings taken when the module is loaded: any two leads constructed without
  these arguments, at whatever moment of the run, have the same \<open>created_at\<close> and the
  same \<open>imported_at\<close>, those of the load.
\<close>

theorem timestamp_defaults_frozen:
  "load_module lib env u = (m, u1) \<and>
   arg_created_at a = None \<and> arg_imported_at a = None \<and>
   arg_created_at b = None \<and> arg_imported_at b = None \<longrightarrow>
     created_at (new_InsuranceLead (InsuranceLead_cls m) a)
       = created_at (new_InsuranceLead (InsuranceLead_cls m) b) \<and>
     imported_at (new_InsuranceLead (InsuranceLead_cls m) a)
       = imported_at (new_InsuranceLead (InsuranceLead_cls m) b) \<and>
     created_at (new_InsuranceLead (InsuranceLead_cls m) a) = now env (tick u + 1) \<and>
     imported_at (new_InsuranceLead (InsuranceLead_cls m) a) = now env (tick u + 2)"
  by (auto simp: load_module_def new_InsuranceLead_def Let_def)

theorem timestamp_defaults_frozen_witness:
  "load_module demo_fernet demo_env world0
     = (fst (load_module demo_fernet demo_env world0), snd (load_module demo_fernet demo_env world0)) \<and>
   arg_created_at (demo_args ''L1'') = None \<and> arg_imported_at (demo_args ''L1'') = None \<and>
   arg_created_at (demo_args ''L2'') = None \<and> arg_imported_at (demo_args ''L2'') = None \<and>
   created_at (new_InsuranceLead (InsuranceLead_cls (fst (load_module demo_fernet demo_env world0)))
       (demo_args ''L1'')) = lit ''2025-11-14T00:00:1'' \<and>
   created_at (new_InsuranceLead (InsuranceLead_cls (fst (load_module demo_fernet demo_env world0)))
       (demo_args ''L2'')) = lit ''2025-11-14T00:00:1'' \<and>
   imported_at (new_InsuranceLead (InsuranceLead_cls (fst (load_module demo_fernet demo_env world0)))
       (demo_args ''L1'')) = lit ''2025-11-14T00:00:2'' \<and>
   imported_at (new_InsuranceLead (InsuranceLead_cls (fst (load_module demo_fernet demo_env world0)))
       (demo_args ''L2'')) = lit ''2025-11-14T00:00:2''"
proof -
  let ?ld = "load_module demo_fernet demo_env world0"
  have h: "?ld = (fst ?ld, snd ?ld)" by (rule prod.collapse [symmetric])
  have a: "arg_created_at (demo_args ''L1'') = None" "arg_imported_at (demo_args ''L1'') = None"
    "arg_created_at (demo_args ''L2'') = None" "arg_imported_at (demo_args ''L2'') = None"
    by (simp_all add: demo_args_def)
  have t: "now demo_env (tick world0 + 1) = lit ''2025-11-14T00:00:1''"
    "now demo_env (tick world0 + 2) = lit ''2025-11-14T00:00:2''"
    by (simp_all add: demo_env_def world0_def str_nat_digit lit_def)
  let ?c = "InsuranceLead_cls (fst ?ld)"
  from timestamp_defaults_frozen [of demo_fernet demo_env world0 "fst ?ld" "snd ?ld"
      "demo_args ''L1''" "demo_args ''L2''"] h a
  have c: "created_at (new_InsuranceLead ?c (demo_args ''L1''))
             = created_at (new_InsuranceLead ?c (demo_args ''L2''))"
    and i: "imported_at (new_InsuranceLead ?c (demo_args ''L1''))
             = imported_at (new_InsuranceLead ?c (demo_args ''L2''))"
    and c1: "created_at (new_InsuranceLead ?c (demo_args ''L1'')) = now demo_env (tick world0 + 1)"
    and i1: "imported_at (new_InsuranceLead ?c (demo_args ''L1'')) = now demo_env (tick world0 + 2)"
    by blast+
  from c c1 have c2: "created_at (new_InsuranceLead ?c (demo_args ''L2'')) = now demo_env (tick world0 + 1)"
    by (rule subst)
  from i i1 have i2: "imported_at (new_InsuranceLead ?c (demo_args ''L2'')) = now demo_env (tick world0 + 2)"
    by (rule subst)
  from h a c1 c2 i1 i2 show ?thesis unfolding t by blast
qed

subsection \<open>A missing or unusable key\<close>

lemma process_leads_audit_length:
  "length (audit (snd (process_leads lib env self leads w))) = length (audit w) + length leads"
  by (simp add: process_leads_eq loop_audit_length)

lemma main_key_ok:
  assumes "(case ENCRYPTION_KEY m of Key_str s \<Rightarrow> encode s | Key_bytes b \<Rightarrow> Inr b) = Inr k"
    and "key_ok lib k"
  shows "fst (main lib env m fetched w) = None \<and>
         length (audit (snd (main lib env m fetched w))) = length (audit w) + length fetched"
  using assms
  by (simp add: main_def LeadImporter_init_def HIPAACompliantEncryption_init_def
        process_leads_audit_length split: prod.splits)
     (metis process_leads_audit_length logger_simps(3) snd_conv)

lemma main_key_refused:
  assumes "(case ENCRYPTION_KEY m of Key_str s \<Rightarrow> encode s | Key_bytes b \<Rightarrow> Inr b) = Inr k"
    and "\<not> key_ok lib k"
  shows "main lib env m fetched w
    = (Some (Raised ''ValueError'' (lit ''Fernet key must be 32 url-safe base64-encoded bytes.'')), w)"
  using assms
  by (simp add: main_def LeadImporter_init_def HIPAACompliantEncryption_init_def)

lemma main_key_unencodable:
  assumes "(case ENCRYPTION_KEY m of Key_str s \<Rightarrow> encode s | Key_bytes b \<Rightarrow> Inr b) = Inl e"
  shows "main lib env m fetched w = (Some e, w)"
  using assms
  by (simp add: main_def LeadImporter_init_def HIPAACompliantEncryption_init_def)

text \<open>
  Claim C4, as stated, fails: with \<^verbatim>\<open>HIPAA_ENCRYPTION_KEY\<close> absent the run ends
  without an exception and the fetched lead is stored and audited as imported.
\<close>

theorem run_without_key_proceeds:
  "getenv demo_env ''HIPAA_ENCRYPTION_KEY'' = None \<and>
   fst (run demo_fernet demo_env [demo_lead ''L1'' True True] world0) = None \<and>
   map lead_id (db (snd (run demo_fernet demo_env [demo_lead ''L1'' True True] world0))) = [lit ''L1''] \<and>
   map event_type (audit (snd (run demo_fernet demo_env [demo_lead ''L1'' True True] world0)))
     = [lit ''lead_imported'']"
proof -
  let ?l = "demo_lead ''L1'' True True"
  let ?m = "fst (load_module demo_fernet demo_env world0)"
  let ?w1 = "snd (load_module demo_fernet demo_env world0)"
  let ?k = "generate_key demo_fernet (urandom demo_env (tick world0))"
  let ?run = "run demo_fernet demo_env [?l] world0"
  have absent: "getenv demo_env ''HIPAA_ENCRYPTION_KEY'' = None" by (simp add: demo_env_def)
  have run: "?run = main demo_fernet demo_env ?m [?l] ?w1"
    by (simp add: run_def split: prod.splits)
  from absent have key: "ENCRYPTION_KEY ?m = Key_bytes ?k"
    by (simp add: load_module_def Let_def)
  have ok: "key_ok demo_fernet ?k"
    using demo_fernet_laws unfolding fernet_laws_def by blast
  from key have kb: "(case ENCRYPTION_KEY ?m of Key_str s \<Rightarrow> encode s | Key_bytes b \<Rightarrow> Inr b) = Inr ?k"
    by simp
  from main_key_ok [OF kb ok, of demo_env "[?l]" ?w1] run have none: "fst ?run = None" by simp
  have adm: "consent_given ?l" "tcpa_compliant ?l" "lead_id ?l = lit ''L1''"
    by (simp_all add: demo_lead_def)
  have nofault: "\<And>t e. lead_id e = lit ''L1'' \<Longrightarrow> db_fault demo_env t e = None"
    by (simp add: demo_env_def)
  have w1: "db ?w1 = []" "audit ?w1 = []" by (simp_all add: load_module_def Let_def world0_def)
  from ok key have m: "main demo_fernet demo_env ?m [?l] ?w1
      = (None, logger INFO (lit ''Import complete: ''
            @ str_int (fst (process_leads demo_fernet demo_env
                 \<lparr>encryption = \<lparr>cipher = ?k\<rparr>\<rparr> [?l]
                 (logger INFO (lit ''Initialized LeadImporter'')
                   (logger INFO (lit ''Audit logging to /tmp/insurance_lead_audit.jsonl'')
                     (logger INFO (lit ''Initialized HIPAA encryption'') ?w1)))))
            @ lit '' leads processed'')
          (snd (process_leads demo_fernet demo_env
                 \<lparr>encryption = \<lparr>cipher = ?k\<rparr>\<rparr> [?l]
                 (logger INFO (lit ''Initialized LeadImporter'')
                   (logger INFO (lit ''Audit logging to /tmp/insurance_lead_audit.jsonl'')
                     (logger INFO (lit ''Initialized HIPAA encryption'') ?w1))))))"
    by (simp add: main_def LeadImporter_init_def HIPAACompliantEncryption_init_def
          split: prod.splits)
  have db: "map lead_id (db (snd ?run)) = [lit ''L1'']"
    unfolding run m
    by (simp add: process_leads_eq process_lead_db adm w1 demo_encrypt_lead_at nofault upsert_def)
  have au: "map event_type (audit (snd ?run)) = [lit ''lead_imported'']"
    unfolding run m
    by (simp add: process_leads_eq process_lead_audit adm w1 demo_encrypt_lead_at nofault mk_event_def)
  from absent none db au show ?thesis by blast
qed

text \<open>
  Claim C4, amended. With \<^verbatim>\<open>HIPAA_ENCRYPTION_KEY\<close> absent the module takes a key
  that \<^verbatim>\<open>Fernet.generate_key()\<close> makes at load time, and the run ends without an
  exception, with one audit entry for each fetched lead. With the variable set to a
  value that Fernet does not accept as a key, \<^verbatim>\<open>LeadImporter()\<close> raises
  \<^verbatim>\<open>ValueError\<close> before any lead is processed: the table, the bucket, the audit
  trail and the record of calls are as they were. The same holds, with the exception of
  \<^verbatim>\<open>key.encode()\<close>, when the variable is set to a value that cannot be encoded.
\<close>

theorem key_absent_or_refused:
  "(fernet_laws lib \<and> getenv env ''HIPAA_ENCRYPTION_KEY'' = None \<and>
    run lib env fetched w = (r, w') \<longrightarrow>
      ENCRYPTION_KEY (fst (load_module lib env w)) = Key_bytes (generate_key lib (urandom env (tick w))) \<and>
      r = None \<and> length (audit w') = length (audit w) + length fetched) \<and>
   (getenv env2 ''HIPAA_ENCRYPTION_KEY'' = Some k \<and> encode k = Inr kb \<and> \<not> key_ok lib2 kb \<and>
    run lib2 env2 fetched2 w2 = (r2, w2') \<longrightarrow>
      r2 = Some (Raised ''ValueError'' (lit ''Fernet key must be 32 url-safe base64-encoded bytes.'')) \<and>
      db w2' = db w2 \<and> s3 w2' = s3 w2 \<and> audit w2' = audit w2 \<and> calls w2' = calls w2) \<and>
   (getenv env3 ''HIPAA_ENCRYPTION_KEY'' = Some k3 \<and> encode k3 = Inl e3 \<and>
    run lib3 env3 fetched3 w3 = (r3, w3') \<longrightarrow>
      r3 = Some e3 \<and>
      db w3' = db w3 \<and> s3 w3' = s3 w3 \<and> audit w3' = audit w3 \<and> calls w3' = calls w3)"
proof (intro conjI impI)
  assume h: "fernet_laws lib \<and> getenv env ''HIPAA_ENCRYPTION_KEY'' = None \<and>
    run lib env fetched w = (r, w')"
  let ?m = "fst (load_module lib env w)"
  let ?w1 = "snd (load_module lib env w)"
  let ?k = "generate_key lib (urandom env (tick w))"
  from h show key: "ENCRYPTION_KEY ?m = Key_bytes ?k"
    by (simp add: load_module_def Let_def)
  from h have ok: "key_ok lib ?k"
    unfolding fernet_laws_def by blast
  from key have kb: "(case ENCRYPTION_KEY ?m of Key_str s \<Rightarrow> encode s | Key_bytes b \<Rightarrow> Inr b) = Inr ?k"
    by simp
  from h have run: "main lib env ?m fetched ?w1 = (r, w')"
    by (simp add: run_def split: prod.splits)
  have w1: "audit ?w1 = audit w" by (simp add: load_module_def Let_def)
  from main_key_ok [OF kb ok, of env fetched ?w1] run w1
  show "r = None" and "length (audit w') = length (audit w) + length fetched"
    by simp_all
next
  assume h: "getenv env2 ''HIPAA_ENCRYPTION_KEY'' = Some k \<and> encode k = Inr kb \<and> \<not> key_ok lib2 kb \<and>
    run lib2 env2 fetched2 w2 = (r2, w2')"
  let ?m = "fst (load_module lib2 env2 w2)"
  let ?w1 = "snd (load_module lib2 env2 w2)"
  from h have "ENCRYPTION_KEY ?m = Key_str k" by (simp add: load_module_def Let_def)
  with h have kb: "(case ENCRYPTION_KEY ?m of Key_str s \<Rightarrow> encode s | Key_bytes b \<Rightarrow> Inr b) = Inr kb"
    by simp
  from h have bad: "\<not> key_ok lib2 kb" by simp
  from h have run: "main lib2 env2 ?m fetched2 ?w1 = (r2, w2')"
    by (simp add: run_def split: prod.splits)
  have w1: "db ?w1 = db w2" "s3 ?w1 = s3 w2" "audit ?w1 = audit w2" "calls ?w1 = calls w2"
    by (simp_all add: load_module_def Let_def)
  from main_key_refused [OF kb bad, of env2 fetched2 ?w1] run w1
  show "r2 = Some (Raised ''ValueError'' (lit ''Fernet key must be 32 url-safe base64-encoded bytes.''))"
    and "db w2' = db w2" and "s3 w2' = s3 w2" and "audit w2' = audit w2" and "calls w2' = calls w2"
    by auto
next
  assume h: "getenv env3 ''HIPAA_ENCRYPTION_KEY'' = Some k3 \<and> encode k3 = Inl e3 \<and>
    run lib3 env3 fetched3 w3 = (r3, w3')"
  let ?m = "fst (load_module lib3 env3 w3)"
  let ?w1 = "snd (load_module lib3 env3 w3)"
  from h have "ENCRYPTION_KEY ?m = Key_str k3" by (simp add: load_module_def Let_def)
  with h have kb: "(case ENCRYPTION_KEY ?m of Key_str s \<Rightarrow> encode s | Key_bytes b \<Rightarrow> Inr b) = Inl e3"
    by simp
  from h have run: "main lib3 env3 ?m fetched3 ?w1 = (r3, w3')"
    by (simp add: run_def split: prod.splits)
  have w1: "db ?w1 = db w3" "s3 ?w1 = s3 w3" "audit ?w1 = audit w3" "calls ?w1 = calls w3"
    by (simp_all add: load_module_def Let_def)
  from main_key_unencodable [OF kb, of lib3 env3 fetched3 ?w1] run w1
  show "r3 = Some e3"
    and "db w3' = db w3" and "s3 w3' = s3 w3" and "audit w3' = audit w3" and "calls w3' = calls w3"
    by auto
qed

theorem key_absent_or_refused_witness:
  "fernet_laws demo_fernet \<and> getenv demo_env ''HIPAA_ENCRYPTION_KEY'' = None \<and>
   run demo_fernet demo_env [demo_lead ''L1'' True True] world0
     = (None, snd (run demo_fernet demo_env [demo_lead ''L1'' True True] world0)) \<and>
   length (audit (snd (run demo_fernet demo_env [demo_lead ''L1'' True True] world0))) = 1 \<and>
   getenv (demo_env\<lparr>getenv := (\<lambda>n. if n = ''HIPAA_ENCRYPTION_KEY'' then Some (lit ''short'') else None)\<rparr>)
       ''HIPAA_ENCRYPTION_KEY'' = Some (lit ''short'') \<and>
   encode (lit ''short'') = Inr ''short'' \<and>
   \<not> key_ok demo_fernet ''short'' \<and>
   run demo_fernet
       (demo_env\<lparr>getenv := (\<lambda>n. if n = ''HIPAA_ENCRYPTION_KEY'' then Some (lit ''short'') else None)\<rparr>)
       [demo_lead ''L1'' True True] world0
     = (Some (Raised ''ValueError'' (lit ''Fernet key must be 32 url-safe base64-encoded bytes.'')),
        snd (run demo_fernet
          (demo_env\<lparr>getenv := (\<lambda>n. if n = ''HIPAA_ENCRYPTION_KEY'' then Some (lit ''short'') else None)\<rparr>)
          [demo_lead ''L1'' True True] world0)) \<and>
   audit (snd (run demo_fernet
       (demo_env\<lparr>getenv := (\<lambda>n. if n = ''HIPAA_ENCRYPTION_KEY'' then Some (lit ''short'') else None)\<rparr>)
       [demo_lead ''L1'' True True] world0)) = [] \<and>
   calls (snd (run demo_fernet
       (demo_env\<lparr>getenv := (\<lambda>n. if n = ''HIPAA_ENCRYPTION_KEY'' then Some (lit ''short'') else None)\<rparr>)
       [demo_lead ''L1'' True True] world0)) = [] \<and>
   getenv (demo_env\<lparr>getenv := (\<lambda>n. if n = ''HIPAA_ENCRYPTION_KEY'' then Some [0xD800] else None)\<rparr>)
       ''HIPAA_ENCRYPTION_KEY'' = Some [0xD800] \<and>
   encode [0xD800] = Inl (Raised ''UnicodeEncodeError'' (lit ''surrogates not allowed'')) \<and>
   run demo_fernet
       (demo_env\<lparr>getenv := (\<lambda>n. if n = ''HIPAA_ENCRYPTION_KEY'' then Some [0xD800] else None)\<rparr>)
       [demo_lead ''L1'' True True] world0
     = (Some (Raised ''UnicodeEncodeError'' (lit ''surrogates not allowed'')),
        snd (run demo_fernet
          (demo_env\<lparr>getenv := (\<lambda>n. if n = ''HIPAA_ENCRYPTION_KEY'' then Some [0xD800] else None)\<rparr>)
          [demo_lead ''L1'' True True] world0)) \<and>
   audit (snd (run demo_fernet
       (demo_env\<lparr>getenv := (\<lambda>n. if n = ''HIPAA_ENCRYPTION_KEY'' then Some [0xD800] else None)\<rparr>)
       [demo_lead ''L1'' True True] world0)) = []"
proof -
  let ?l = "demo_lead ''L1'' True True"
  let ?env2 = "demo_env\<lparr>getenv := (\<lambda>n. if n = ''HIPAA_ENCRYPTION_KEY'' then Some (lit ''short'') else None)\<rparr>"
  let ?env3 = "demo_env\<lparr>getenv := (\<lambda>n. if n = ''HIPAA_ENCRYPTION_KEY'' then Some [0xD800] else None)\<rparr>"
  let ?xs = "Raised ''UnicodeEncodeError'' (lit ''surrogates not allowed'')"
  let ?run = "run demo_fernet demo_env [?l] world0"
  let ?run2 = "run demo_fernet ?env2 [?l] world0"
  let ?run3 = "run demo_fernet ?env3 [?l] world0"
  have absent: "getenv demo_env ''HIPAA_ENCRYPTION_KEY'' = None" by (simp add: demo_env_def)
  have h1: "?run = (fst ?run, snd ?run)" by (rule prod.collapse [symmetric])
  have set2: "getenv ?env2 ''HIPAA_ENCRYPTION_KEY'' = Some (lit ''short'')" by simp
  have enc2: "encode (lit ''short'') = Inr ''short''" by (rule ascii_text) simp
  have bad: "\<not> key_ok demo_fernet ''short''" by (simp add: demo_fernet_def)
  have h2: "?run2 = (fst ?run2, snd ?run2)" by (rule prod.collapse [symmetric])
  have set3: "getenv ?env3 ''HIPAA_ENCRYPTION_KEY'' = Some [0xD800]" by simp
  have enc3: "encode [0xD800] = Inl ?xs" by (rule encode_surrogate)
  have h3: "?run3 = (fst ?run3, snd ?run3)" by (rule prod.collapse [symmetric])
  note t = key_absent_or_refused [of demo_fernet demo_env "[?l]" world0 "fst ?run" "snd ?run"
      ?env2 "lit ''short''" "''short''" demo_fernet "[?l]" world0 "fst ?run2" "snd ?run2"
      ?env3 "[0xD800]" ?xs demo_fernet "[?l]" world0 "fst ?run3" "snd ?run3"]
  from t demo_fernet_laws absent h1 have a: "fst ?run = None"
    and b: "length (audit (snd ?run)) = length (audit world0) + length [?l]" by blast+
  from t set2 enc2 bad h2
  have c: "fst ?run2 = Some (Raised ''ValueError'' (lit ''Fernet key must be 32 url-safe base64-encoded bytes.''))"
    and d: "audit (snd ?run2) = audit world0" and e: "calls (snd ?run2) = calls world0" by blast+
  from t set3 enc3 h3
  have f: "fst ?run3 = Some ?xs" and g: "audit (snd ?run3) = audit world0" by blast+
  from a have a': "?run = (None, snd ?run)" by (simp add: prod_eq_iff)
  from c have c': "?run2 = (Some (Raised ''ValueError'' (lit ''Fernet key must be 32 url-safe base64-encoded bytes.'')),
      snd ?run2)" by (simp add: prod_eq_iff)
  from f have f': "?run3 = (Some ?xs, snd ?run3)" by (simp add: prod_eq_iff)
  from b have b': "length (audit (snd ?run)) = 1" by (simp add: world0_def)
  from d have d': "audit (snd ?run2) = []" by (simp add: world0_def)
  from e have e': "calls (snd ?run2) = []" by (simp add: world0_def)
  from g have g': "audit (snd ?run3) = []" by (simp add: world0_def)
  from demo_fernet_laws absent a' b' set2 enc2 bad c' d' e' set3 enc3 f' g' show ?thesis by blast
qed

subsection \<open>What reaches the sinks\<close>

lemma sealed_differs:
  assumes "fernet_laws lib" and "sealed lib env self (Some x) v'" and "x \<noteq> []"
  shows "v' \<noteq> Some x"
proof -
  from assms(2,3) obtain t b where b: "encode x = Inr b"
    and v': "v' = Some (lit (fencrypt lib (cipher self) (draw env t) b))"
    by (auto simp: sealed_def)
  from token_differs [OF assms(1) b] v' show ?thesis by simp
qed

lemma round_sink_args:
  assumes "c \<in> set (calls (fst (process_lead lib env self wc l)))"
  shows "c \<in> set (calls (fst wc)) \<or> is_encrypt_call c \<or>
         (admitted l \<and>
          fst (encrypt_lead_at lib env (encryption self) (tick (fst wc)) l) = Inr (call_arg c))"
proof (cases "admitted l")
  case False
  with assms show ?thesis by (simp add: process_lead_calls admitted_def)
next
  case True
  obtain r t where rt: "encrypt_lead_at lib env (encryption self) (tick (fst wc)) l = (r, t)"
    by (cases "encrypt_lead_at lib env (encryption self) (tick (fst wc)) l")
  show ?thesis
  proof (cases r)
    case (Inl ex)
    with assms True rt show ?thesis by (auto simp: process_lead_calls admitted_def)
  next
    case (Inr e)
    with assms True rt show ?thesis
      by (auto simp: process_lead_calls admitted_def split: option.splits)
  qed
qed

lemma sink_args_sealed:
  assumes laws: "fernet_laws lib" and run: "process_leads lib env self leads w = (n, w')"
  shows "\<forall>c\<in>set (calls w'). c \<in> set (calls w) \<or> is_encrypt_call c \<or>
         (\<exists>l\<in>set leads. admitted l \<and> same_plain l (call_arg c) \<and>
            (\<forall>f. sealed lib env (encryption self) (getattr l f) (getattr (call_arg c) f)))"
proof -
  let ?w0 = "logger INFO (lit ''Processing '' @ str_nat (length leads) @ lit '' leads'') w"
  let ?r = "foldl (process_lead lib env self) (?w0, 0) leads"
  let ?ok = "\<lambda>c. c \<in> set (calls w) \<or> is_encrypt_call c \<or>
         (\<exists>l\<in>set leads. admitted l \<and> same_plain l (call_arg c) \<and>
            (\<forall>f. sealed lib env (encryption self) (getattr l f) (getattr (call_arg c) f)))"
  from run have c: "calls w' = calls (fst ?r)"
    by (auto simp: process_leads_eq)
  have "\<forall>c\<in>set (calls (fst ?r)). ?ok c"
  proof (rule foldl_invariant [where I = "\<lambda>wc. \<forall>c\<in>set (calls (fst wc)). ?ok c"])
    show "\<forall>c\<in>set (calls (fst (?w0, 0::int))). ?ok c" by simp
  next
    fix acc :: "world \<times> int" and x
    assume x: "x \<in> set leads" and inv: "\<forall>c\<in>set (calls (fst acc)). ?ok c"
    show "\<forall>c\<in>set (calls (fst (process_lead lib env self acc x))). ?ok c"
    proof
      fix c
      assume "c \<in> set (calls (fst (process_lead lib env self acc x)))"
      from round_sink_args [OF this]
      consider "c \<in> set (calls (fst acc))" | "is_encrypt_call c"
        | "admitted x"
          "fst (encrypt_lead_at lib env (encryption self) (tick (fst acc)) x) = Inr (call_arg c)"
        by blast
      then show "?ok c"
      proof cases
        case 1
        with inv show ?thesis by blast
      next
        case 2
        then show ?thesis by simp
      next
        case 3
        from encrypt_lead_at_sealed [OF laws 3(2)] encrypt_lead_at_same_plain [OF 3(2)] 3(1) x
        show ?thesis by blast
      qed
    qed
  qed
  then show ?thesis by (simp only: c)
qed

text \<open>
  Claim C2. With a cipher that keeps the laws of Fernet, in the lead
  \<^verbatim>\<open>_encrypt_lead\<close> returns each of the five fields is \<^verbatim>\<open>None\<close> where it was
  \<^verbatim>\<open>None\<close>, empty where it was empty, and otherwise the text of a token that Fernet
  made, under the importer's key, of the UTF-8 bytes of the field's value, which is not
  the value itself; the other fields are those of the input. A field that is
  \<^verbatim>\<open>None\<close> or empty makes no call to the cipher: its round of the loop over the
  fields changes nothing. Over a whole batch, every lead that \<^verbatim>\<open>_store_lead\<close> or
  \<^verbatim>\<open>_archive_to_s3\<close> receives during the call is such a form of an admitted lead of
  the batch.
\<close>

theorem regulated_fields_sealed:
  "fernet_laws lib \<longrightarrow>
   (encrypt_lead lib env self l v = (Inr e, v1) \<longrightarrow>
      (\<forall>f. sealed lib env (encryption self) (getattr l f) (getattr e f)) \<and>
      (\<forall>f x. getattr l f = Some x \<and> x \<noteq> [] \<longrightarrow> getattr e f \<noteq> Some x) \<and>
      same_plain l e) \<and>
   (getattr a g = None \<or> getattr a g = Some [] \<longrightarrow>
      encrypt_fields lib env (encryption self) (g # gs) a t
        = encrypt_fields lib env (encryption self) gs a t) \<and>
   (process_leads lib env self leads w = (n, w') \<longrightarrow>
      (\<forall>c\<in>set (calls w'). c \<in> set (calls w) \<or> is_encrypt_call c \<or>
         (\<exists>l\<in>set leads. admitted l \<and> same_plain l (call_arg c) \<and>
            (\<forall>f. sealed lib env (encryption self) (getattr l f) (getattr (call_arg c) f)) \<and>
            (\<forall>f x. getattr l f = Some x \<and> x \<noteq> [] \<longrightarrow> getattr (call_arg c) f \<noteq> Some x))))"
proof (intro impI conjI allI)
  fix f
  assume laws: "fernet_laws lib" and enc: "encrypt_lead lib env self l v = (Inr e, v1)"
  from enc have "fst (encrypt_lead_at lib env (encryption self) (tick v) l) = Inr e"
    using encrypt_lead_simps(7) [of lib env self l v] by simp
  from encrypt_lead_at_sealed [OF laws this]
  show "sealed lib env (encryption self) (getattr l f) (getattr e f)" .
next
  fix f x
  assume laws: "fernet_laws lib" and enc: "encrypt_lead lib env self l v = (Inr e, v1)"
    and fx: "getattr l f = Some x \<and> x \<noteq> []"
  from enc have "fst (encrypt_lead_at lib env (encryption self) (tick v) l) = Inr e"
    using encrypt_lead_simps(7) [of lib env self l v] by simp
  from encrypt_lead_at_sealed [OF laws this, of f] fx
  have "sealed lib env (encryption self) (Some x) (getattr e f)" by simp
  from sealed_differs [OF laws this] fx show "getattr e f \<noteq> Some x" by simp
next
  assume enc: "encrypt_lead lib env self l v = (Inr e, v1)"
  from enc have "fst (encrypt_lead_at lib env (encryption self) (tick v) l) = Inr e"
    using encrypt_lead_simps(7) [of lib env self l v] by simp
  then show "same_plain l e" by (rule encrypt_lead_at_same_plain)
next
  assume "getattr a g = None \<or> getattr a g = Some []"
  then show "encrypt_fields lib env (encryption self) (g # gs) a t
        = encrypt_fields lib env (encryption self) gs a t"
    by auto
next
  assume laws: "fernet_laws lib" and run: "process_leads lib env self leads w = (n, w')"
  show "\<forall>c\<in>set (calls w'). c \<in> set (calls w) \<or> is_encrypt_call c \<or>
         (\<exists>l\<in>set leads. admitted l \<and> same_plain l (call_arg c) \<and>
            (\<forall>f. sealed lib env (encryption self) (getattr l f) (getattr (call_arg c) f)) \<and>
            (\<forall>f x. getattr l f = Some x \<and> x \<noteq> [] \<longrightarrow> getattr (call_arg c) f \<noteq> Some x))"
  proof
    fix c
    assume "c \<in> set (calls w')"
    with sink_args_sealed [OF laws run]
    consider "c \<in> set (calls w)" | "is_encrypt_call c"
      | l where "l \<in> set leads" "admitted l" "same_plain l (call_arg c)"
          "\<forall>f. sealed lib env (encryption self) (getattr l f) (getattr (call_arg c) f)"
      by blast
    then show "c \<in> set (calls w) \<or> is_encrypt_call c \<or>
         (\<exists>l\<in>set leads. admitted l \<and> same_plain l (call_arg c) \<and>
            (\<forall>f. sealed lib env (encryption self) (getattr l f) (getattr (call_arg c) f)) \<and>
            (\<forall>f x. getattr l f = Some x \<and> x \<noteq> [] \<longrightarrow> getattr (call_arg c) f \<noteq> Some x))"
    proof cases
      case 1
      then show ?thesis by simp
    next
      case 2
      then show ?thesis by simp
    next
      case 3
      have "\<forall>f x. getattr l f = Some x \<and> x \<noteq> [] \<longrightarrow> getattr (call_arg c) f \<noteq> Some x"
      proof (intro allI impI)
        fix f x
        assume fx: "getattr l f = Some x \<and> x \<noteq> []"
        with 3(4) have "sealed lib env (encryption self) (Some x) (getattr (call_arg c) f)"
          by metis
        from sealed_differs [OF laws this] fx show "getattr (call_arg c) f \<noteq> Some x" by simp
      qed
      with 3 show ?thesis by blast
    qed
  qed
qed

theorem regulated_fields_sealed_witness:
  "fernet_laws demo_fernet \<and>
   encrypt_lead demo_fernet demo_env demo_importer (demo_lead ''L1'' True True) world0
     = (Inr ((demo_lead ''L1'' True True)
          \<lparr>email := lit (fencrypt demo_fernet (replicate 44 (CHR ''A'')) (draw demo_env 2) ''a@x.org''),
           phone := lit (fencrypt demo_fernet (replicate 44 (CHR ''A'')) (draw demo_env 1) ''555''),
           date_of_birth := Some (lit (fencrypt demo_fernet (replicate 44 (CHR ''A''))
                                         (draw demo_env 0) ''1970-01-01''))\<rparr>),
        snd (encrypt_lead demo_fernet demo_env demo_importer (demo_lead ''L1'' True True) world0)) \<and>
   getattr (demo_lead ''L1'' True True) Email = Some (lit ''a@x.org'') \<and> lit ''a@x.org'' \<noteq> [] \<and>
   lit (fencrypt demo_fernet (replicate 44 (CHR ''A'')) (draw demo_env 2) ''a@x.org'') \<noteq> lit ''a@x.org'' \<and>
   lit (fencrypt demo_fernet (replicate 44 (CHR ''A'')) (draw demo_env 1) ''555'') \<noteq> lit ''555'' \<and>
   getattr (demo_lead ''L1'' True True) Health_conditions = None \<and>
   encrypt_fields demo_fernet demo_env (encryption demo_importer) [Health_conditions, Phone]
       (demo_lead ''L1'' True True) 0
     = encrypt_fields demo_fernet demo_env (encryption demo_importer) [Phone]
       (demo_lead ''L1'' True True) 0 \<and>
   process_leads demo_fernet demo_env demo_importer [demo_lead ''L1'' True True] world0
     = (fst (process_leads demo_fernet demo_env demo_importer [demo_lead ''L1'' True True] world0),
        snd (process_leads demo_fernet demo_env demo_importer [demo_lead ''L1'' True True] world0)) \<and>
   sealed demo_fernet demo_env (encryption demo_importer) (Some (lit ''a@x.org''))
     (Some (lit (fencrypt demo_fernet (replicate 44 (CHR ''A'')) (draw demo_env 2) ''a@x.org''))) \<and>
   sealed demo_fernet demo_env (encryption demo_importer) (Some []) (Some []) \<and>
   sealed demo_fernet demo_env (encryption demo_importer) None None"
proof -
  let ?l = "demo_lead ''L1'' True True"
  let ?k = "replicate 44 (CHR ''A'')"
  let ?e = "?l\<lparr>email := lit (fencrypt demo_fernet ?k (draw demo_env 2) ''a@x.org''),
           phone := lit (fencrypt demo_fernet ?k (draw demo_env 1) ''555''),
           date_of_birth := Some (lit (fencrypt demo_fernet ?k (draw demo_env 0) ''1970-01-01''))\<rparr>"
  let ?enc = "encrypt_lead demo_fernet demo_env demo_importer ?l world0"
  let ?res = "process_leads demo_fernet demo_env demo_importer [?l] world0"
  have "fst ?enc = Inr ?e"
    by (simp add: demo_encrypt_lead_at world0_def demo_importer_def numeral_2_eq_2)
  then have enc: "?enc = (Inr ?e, snd ?enc)" by (simp add: prod_eq_iff del: encrypt_lead_simps)
  have h: "?res = (fst ?res, snd ?res)" by (rule prod.collapse [symmetric])
  have ge: "getattr ?l Email = Some (lit ''a@x.org'')" "lit ''a@x.org'' \<noteq> []"
    by (simp_all add: demo_lead_def lit_def)
  have gp: "getattr ?l Phone = Some (lit ''555'')" "lit ''555'' \<noteq> []"
    by (simp_all add: demo_lead_def lit_def)
  have gi: "getattr ?l Household_income = Some []" by (simp add: demo_lead_def)
  have gh: "getattr ?l Health_conditions = None" by (simp add: demo_lead_def)
  note t = regulated_fields_sealed [of demo_fernet demo_env demo_importer ?l world0 ?e "snd ?enc"
      ?l Health_conditions "[Phone]" 0 "[?l]" world0 "fst ?res" "snd ?res"]
  from t demo_fernet_laws enc
  have s: "\<forall>f. sealed demo_fernet demo_env (encryption demo_importer) (getattr ?l f) (getattr ?e f)"
    and d: "\<forall>f x. getattr ?l f = Some x \<and> x \<noteq> [] \<longrightarrow> getattr ?e f \<noteq> Some x"
    by blast+
  from t demo_fernet_laws gh
  have skip: "encrypt_fields demo_fernet demo_env (encryption demo_importer) [Health_conditions, Phone] ?l 0
     = encrypt_fields demo_fernet demo_env (encryption demo_importer) [Phone] ?l 0"
    by blast
  from d ge have "getattr ?e Email \<noteq> Some (lit ''a@x.org'')" by blast
  then have de: "lit (fencrypt demo_fernet ?k (draw demo_env 2) ''a@x.org'') \<noteq> lit ''a@x.org''"
    by simp
  from d gp have "getattr ?e Phone \<noteq> Some (lit ''555'')" by blast
  then have dp: "lit (fencrypt demo_fernet ?k (draw demo_env 1) ''555'') \<noteq> lit ''555''"
    by simp
  from s have "sealed demo_fernet demo_env (encryption demo_importer) (getattr ?l Email) (getattr ?e Email)"
    by blast
  with ge have se: "sealed demo_fernet demo_env (encryption demo_importer) (Some (lit ''a@x.org''))
     (Some (lit (fencrypt demo_fernet ?k (draw demo_env 2) ''a@x.org'')))"
    by simp
  from s have "sealed demo_fernet demo_env (encryption demo_importer)
      (getattr ?l Household_income) (getattr ?e Household_income)"
    by blast
  with gi have si: "sealed demo_fernet demo_env (encryption demo_importer) (Some []) (Some [])"
    by (simp add: demo_lead_def)
  from s have "sealed demo_fernet demo_env (encryption demo_importer)
      (getattr ?l Health_conditions) (getattr ?e Health_conditions)"
    by blast
  with gh have sh: "sealed demo_fernet demo_env (encryption demo_importer) None None"
    by (simp add: demo_lead_def)
  from demo_fernet_laws enc ge de dp gh skip h se si sh show ?thesis by blast
qed

subsection \<open>The round trip\<close>








subsection \<open>Determinism of \<^verbatim>\<open>encrypt\<close>\<close>

lemma demo_draws_differ: "draw demo_env 0 \<noteq> draw demo_env 1"
  by (simp add: draw_def demo_env_def)

text \<open>
  Claim C5, as stated, fails: the token depends on the timestamp and the IV that Fernet
  draws for the call, and two calls on the same plaintext under the same key, made at
  two steps of a run where these differ, return different ciphertexts.
\<close>

theorem encrypt_two_calls_differ:
  "fst (encrypt demo_fernet demo_env (encryption demo_importer) (lit ''555'') 0)
     = Inr (lit (fencrypt demo_fernet (replicate 44 (CHR ''A'')) (draw demo_env 0) ''555'')) \<and>
   fst (encrypt demo_fernet demo_env (encryption demo_importer) (lit ''555'') 1)
     = Inr (lit (fencrypt demo_fernet (replicate 44 (CHR ''A'')) (draw demo_env 1) ''555'')) \<and>
   fst (encrypt demo_fernet demo_env (encryption demo_importer) (lit ''555'') 0)
     \<noteq> fst (encrypt demo_fernet demo_env (encryption demo_importer) (lit ''555'') 1)"
proof -
  have "fencrypt demo_fernet (replicate 44 (CHR ''A'')) (draw demo_env 0) ''555''
      \<noteq> fencrypt demo_fernet (replicate 44 (CHR ''A'')) (draw demo_env 1) ''555''"
    using demo_fernet_laws demo_draws_differ unfolding fernet_laws_def by blast
  then show ?thesis by (simp add: demo_encrypt demo_importer_def)
qed

text \<open>
  Claim C5, amended. \<^verbatim>\<open>encrypt\<close> is a function of the key, the plaintext and the
  timestamp and IV that Fernet draws for the call. On the empty string every call
  returns the empty string and draws nothing. On a string that UTF-8 cannot encode every
  call raises the same \<^verbatim>\<open>UnicodeEncodeError\<close>. On any other plaintext, with a
  cipher that keeps the laws of Fernet, a call returns the text of the token Fernet makes
  of the UTF-8 bytes of the plaintext, and two calls under the same key (in one run or in
  two, \<open>env\<close> and \<open>env'\<close>) return the same ciphertext if and only if they draw the
  same timestamp and IV.
\<close>

theorem encrypt_function_of_draw:
  "fernet_laws lib \<longrightarrow>
     encrypt lib env self [] t = (Inr [], t) \<and>
     (x \<noteq> [] \<and> encode x = Inr b \<longrightarrow>
        encrypt lib env self x t = (Inr (lit (fencrypt lib (cipher self) (draw env t) b)), Suc t) \<and>
        (fst (encrypt lib env self x t) = fst (encrypt lib env' self x t')
           \<longleftrightarrow> draw env t = draw env' t')) \<and>
     (encode y = Inl ex \<longrightarrow>
        encrypt lib env self y t = (Inl ex, t) \<and>
        fst (encrypt lib env self y t) = fst (encrypt lib env' self y t'))"
proof (intro impI conjI)
  show "encrypt lib env self [] t = (Inr [], t)" by simp
next
  assume laws: "fernet_laws lib" and h: "x \<noteq> [] \<and> encode x = Inr b"
  then have x: "x \<noteq> []" and b: "encode x = Inr b" by simp_all
  from encrypt_encodable [OF laws x b]
  show "encrypt lib env self x t = (Inr (lit (fencrypt lib (cipher self) (draw env t) b)), Suc t)" .
next
  assume laws: "fernet_laws lib" and h: "x \<noteq> [] \<and> encode x = Inr b"
  then have x: "x \<noteq> []" and b: "encode x = Inr b" by simp_all
  have inj: "draw env t \<noteq> draw env' t' \<Longrightarrow>
      fencrypt lib (cipher self) (draw env t) b \<noteq> fencrypt lib (cipher self) (draw env' t') b"
    using laws unfolding fernet_laws_def by blast
  from encrypt_encodable [OF laws x b, of env self t] encrypt_encodable [OF laws x b, of env' self t'] inj
  show "fst (encrypt lib env self x t) = fst (encrypt lib env' self x t')
           \<longleftrightarrow> draw env t = draw env' t'"
    by auto
next
  assume h: "encode y = Inl ex"
  then have y: "y \<noteq> []" by auto
  from encrypt_unencodable [OF y h]
  show "encrypt lib env self y t = (Inl ex, t)" .
  from encrypt_unencodable [OF y h, of lib env self t] encrypt_unencodable [OF y h, of lib env' self t']
  show "fst (encrypt lib env self y t) = fst (encrypt lib env' self y t')" by simp
qed

theorem encrypt_function_of_draw_witness:
  "fernet_laws demo_fernet \<and>
   encrypt demo_fernet demo_env (encryption demo_importer) [] 0 = (Inr [], 0) \<and>
   lit ''555'' \<noteq> [] \<and> encode (lit ''555'') = Inr ''555'' \<and>
   encrypt demo_fernet demo_env (encryption demo_importer) (lit ''555'') 0
     = (Inr (lit (fencrypt demo_fernet (replicate 44 (CHR ''A'')) (draw demo_env 0) ''555'')), Suc 0) \<and>
   draw demo_env 0 \<noteq> draw demo_env 1 \<and>
   fst (encrypt demo_fernet demo_env (encryption demo_importer) (lit ''555'') 0)
     \<noteq> fst (encrypt demo_fernet demo_env (encryption demo_importer) (lit ''555'') 1) \<and>
   draw demo_env 0 = draw (demo_env\<lparr>getenv := (\<lambda>n. Some [])\<rparr>) 0 \<and>
   fst (encrypt demo_fernet demo_env (encryption demo_importer) (lit ''555'') 0)
     = fst (encrypt demo_fernet (demo_env\<lparr>getenv := (\<lambda>n. Some [])\<rparr>) (encryption demo_importer)
              (lit ''555'') 0) \<and>
   encode [0xD800] = Inl (Raised ''UnicodeEncodeError'' (lit ''surrogates not allowed'')) \<and>
   encrypt demo_fernet demo_env (encryption demo_importer) [0xD800] 0
     = (Inl (Raised ''UnicodeEncodeError'' (lit ''surrogates not allowed'')), 0) \<and>
   fst (encrypt demo_fernet demo_env (encryption demo_importer) [0xD800] 0)
     = fst (encrypt demo_fernet demo_env (encryption demo_importer) [0xD800] 1)"
proof -
  let ?self = "encryption demo_importer"
  let ?env' = "demo_env\<lparr>getenv := (\<lambda>n. Some [])\<rparr>"
  let ?xs = "Raised ''UnicodeEncodeError'' (lit ''surrogates not allowed'')"
  have x: "lit ''555'' \<noteq> []" by (simp add: lit_def)
  have b: "encode (lit ''555'') = Inr ''555''" by (rule ascii_text) simp
  have k: "cipher ?self = replicate 44 (CHR ''A'')" by (simp add: demo_importer_def)
  have d': "draw demo_env 0 = draw ?env' 0" by (simp add: draw_def)
  have ez: "encode [0xD800] = Inl ?xs" by (rule encode_surrogate)
  note t1 = encrypt_function_of_draw [where lib = demo_fernet and env = demo_env and self = ?self
      and t = 0 and x = "lit ''555''" and b = "''555''" and env' = demo_env and t' = 1
      and y = "[0xD800]" and ex = ?xs]
  note t2 = encrypt_function_of_draw [where lib = demo_fernet and env = demo_env and self = ?self
      and t = 0 and x = "lit ''555''" and b = "''555''" and env' = ?env' and t' = 0
      and y = "[0xD800]" and ex = ?xs]
  from t1 demo_fernet_laws have e0: "encrypt demo_fernet demo_env ?self [] 0 = (Inr [], 0)"
    by blast
  from t1 demo_fernet_laws x b k
  have e1: "encrypt demo_fernet demo_env ?self (lit ''555'') 0
     = (Inr (lit (fencrypt demo_fernet (replicate 44 (CHR ''A'')) (draw demo_env 0) ''555'')), Suc 0)"
    by simp
  from t1 demo_fernet_laws x b demo_draws_differ
  have ne: "fst (encrypt demo_fernet demo_env ?self (lit ''555'') 0)
     \<noteq> fst (encrypt demo_fernet demo_env ?self (lit ''555'') 1)"
    by blast
  from t2 demo_fernet_laws x b d'
  have eq: "fst (encrypt demo_fernet demo_env ?self (lit ''555'') 0)
     = fst (encrypt demo_fernet ?env' ?self (lit ''555'') 0)"
    by blast
  from t1 ez have r: "encrypt demo_fernet demo_env ?self [0xD800] 0 = (Inl ?xs, 0)"
    "fst (encrypt demo_fernet demo_env ?self [0xD800] 0) = fst (encrypt demo_fernet demo_env ?self [0xD800] 1)"
    using demo_fernet_laws by blast+
  from demo_fernet_laws e0 x b e1 demo_draws_differ ne d' eq ez r show ?thesis by blast
qed

end
